theory Spec2Isabelle
  imports Main "HOL-Library.Sublist" "HOL-Library.AList"
begin

section \<open>cas: resolving a partial image key (cas/cas.go)\<close>

text \<open>
  The constants of cas/cas.go. \<open>sha512.Size\<close> is 64 bytes; a store key keeps the
  first half of the sum, written in hexadecimal, after the prefix.
\<close>

definition hashPrefix :: string where
  "hashPrefix = ''sha512-''"

definition lenHash :: nat where
  "lenHash = 64"

definition lenHashKey :: nat where
  "lenHashKey = (lenHash div 2) * 2"

definition lenKey :: nat where
  "lenKey = length hashPrefix + lenHashKey"

definition minlenKey :: nat where
  "minlenKey = length hashPrefix + 2"

text \<open>
  Go's \<open>strings.HasPrefix(s, p)\<close>: \<open>p\<close> is an initial segment of \<open>s\<close>.
\<close>

definition HasPrefix :: "string \<Rightarrow> string \<Rightarrow> bool" where
  "HasPrefix s p = prefix p s"

text \<open>
  A row of the store's \<open>aciinfo\<close> table. The struct is declared in a file of the
  package that is not among the sources; \<open>ResolveKey\<close> reads its \<open>BlobKey\<close> only.
\<close>

record ACIInfo =
  BlobKey :: string
  AppName :: string
  Latest :: bool

text \<open>
  The store, as far as \<open>ResolveKey\<close> reads it: the rows of the table, and the error
  with which a transaction on the database fails, when it does.
\<close>

record Store =
  db_rows :: "ACIInfo list"
  db_err :: "string option"

text \<open>
  \<open>GetACIInfosWithKeyPrefix\<close> selects the rows whose blob key starts with the given
  key; \<open>db.Do\<close> runs a function in a transaction and gives back the transaction's
  error when it has one.
\<close>

definition GetACIInfosWithKeyPrefix :: "ACIInfo list \<Rightarrow> string \<Rightarrow> ACIInfo list" where
  "GetACIInfosWithKeyPrefix rows key = filter (\<lambda>ai. HasPrefix (BlobKey ai) key) rows"

definition db_Do :: "Store \<Rightarrow> (ACIInfo list \<Rightarrow> 'a) \<Rightarrow> string + 'a" where
  "db_Do ds f = (case db_err ds of Some e \<Rightarrow> Inl e | None \<Rightarrow> Inr (f (db_rows ds)))"

datatype resolve_error =
    WrongKeyPrefix
  | KeyTooShort
  | RetrievingACIInfos string
  | NoKeysFound
  | AmbiguousKey string

definition ResolveKey :: "Store \<Rightarrow> string \<Rightarrow> resolve_error + string" where
  "ResolveKey ds key =
     (if \<not> HasPrefix key hashPrefix then Inl WrongKeyPrefix
      else if length key < minlenKey then Inl KeyTooShort
      else
        let key' = (if length key > lenKey then take lenKey key else key) in
        (case db_Do ds (\<lambda>tx. GetACIInfosWithKeyPrefix tx key') of
           Inl err \<Rightarrow> Inl (RetrievingACIInfos err)
         | Inr aciInfos \<Rightarrow>
             let keyCount = length aciInfos in
             if keyCount = 0 then Inl NoKeysFound
             else if keyCount \<noteq> 1 then Inl (AmbiguousKey key')
             else Inr (BlobKey (aciInfos ! 0))))"

text \<open>
  The stored blob keys that start with \<open>k\<close>, one per row, in table order.
\<close>

definition stored_keys_with_prefix :: "Store \<Rightarrow> string \<Rightarrow> string list" where
  "stored_keys_with_prefix ds k = filter (prefix k) (map BlobKey (db_rows ds))"


section \<open>stage0: merging environments (stage0/run.go)\<close>

text \<open>
  An app's environment is a slice of name/value pairs (the appc schema type
  \<open>types.Environment\<close>, whose declaration is not among the sources). \<open>Get\<close> returns
  the value of the first variable of the given name and whether there is one; \<open>Set\<close>
  overwrites the first variable of that name in place, or appends a new one.
\<close>

record EnvironmentVariable =
  Name :: string
  Value :: string

type_synonym Environment = "EnvironmentVariable list"

fun Environment_Get :: "Environment \<Rightarrow> string \<Rightarrow> string \<times> bool" where
  "Environment_Get [] name = ('''', False)"
| "Environment_Get (env # e) name =
     (if Name env = name then (Value env, True) else Environment_Get e name)"

fun Environment_Set :: "Environment \<Rightarrow> string \<Rightarrow> string \<Rightarrow> Environment" where
  "Environment_Set [] name val = [\<lparr>Name = name, Value = val\<rparr>]"
| "Environment_Set (env # e) name val =
     (if Name env = name then \<lparr>Name = name, Value = val\<rparr> # e
      else env # Environment_Set e name val)"

text \<open>
  Go's \<open>strings.SplitN(s, sep, 2)\<close> for a separator of one character: the text before
  the first separator and the text after it, or the whole string alone when it holds no
  separator.
\<close>

definition SplitN2 :: "string \<Rightarrow> char \<Rightarrow> string list" where
  "SplitN2 s sep =
     (if sep \<in> set s
      then [takeWhile (\<lambda>c. c \<noteq> sep) s, tl (dropWhile (\<lambda>c. c \<noteq> sep) s)]
      else [s])"

text \<open>Indexing a slice panics out of range.\<close>

datatype panic = IndexOutOfRange

definition index :: "'a list \<Rightarrow> nat \<Rightarrow> panic + 'a" where
  "index xs i = (if i < length xs then Inr (xs ! i) else Inl IndexOutOfRange)"

text \<open>
  The first loop of \<open>MergeEnvs\<close>, over \<open>setEnv\<close>: both \<open>pair[0]\<close> and \<open>pair[1]\<close> are
  read before \<open>Set\<close> is called.
\<close>

fun MergeEnvs_set :: "Environment \<Rightarrow> string list \<Rightarrow> panic + Environment" where
  "MergeEnvs_set appEnv [] = Inr appEnv"
| "MergeEnvs_set appEnv (ev # evs) =
     (let pair = SplitN2 ev CHR ''='' in
      case index pair 0 of
        Inl p \<Rightarrow> Inl p
      | Inr name \<Rightarrow>
          (case index pair 1 of
             Inl p \<Rightarrow> Inl p
           | Inr val \<Rightarrow> MergeEnvs_set (Environment_Set appEnv name val) evs))"

text \<open>
  The second loop, over \<open>os.Environ()\<close>: \<open>pair[1]\<close> is read only when no variable of
  the name exists yet.
\<close>

fun MergeEnvs_inherit :: "Environment \<Rightarrow> string list \<Rightarrow> panic + Environment" where
  "MergeEnvs_inherit appEnv [] = Inr appEnv"
| "MergeEnvs_inherit appEnv (ev # evs) =
     (let pair = SplitN2 ev CHR ''='' in
      case index pair 0 of
        Inl p \<Rightarrow> Inl p
      | Inr name \<Rightarrow>
          if \<not> snd (Environment_Get appEnv name) then
            (case index pair 1 of
               Inl p \<Rightarrow> Inl p
             | Inr val \<Rightarrow> MergeEnvs_inherit (Environment_Set appEnv name val) evs)
          else MergeEnvs_inherit appEnv evs)"

text \<open>
  \<open>MergeEnvs\<close>; the process environment \<open>os.Environ()\<close> is the last argument, and the
  environment the pointer \<open>appEnv\<close> refers to afterwards is the result.
\<close>

definition MergeEnvs :: "Environment \<Rightarrow> bool \<Rightarrow> string list \<Rightarrow> string list \<Rightarrow> panic + Environment" where
  "MergeEnvs appEnv inheritEnv setEnv environ =
     (case MergeEnvs_set appEnv setEnv of
        Inl p \<Rightarrow> Inl p
      | Inr appEnv' \<Rightarrow>
          if inheritEnv then MergeEnvs_inherit appEnv' environ else Inr appEnv')"

text \<open>
  For stating what \<open>MergeEnvs\<close> computes: an entry \<open>name=value\<close> read as a pair, split
  at its first \<open>=\<close>.
\<close>

definition name_value :: "string \<Rightarrow> string \<times> string" where
  "name_value ev = (takeWhile (\<lambda>c. c \<noteq> CHR ''='') ev, tl (dropWhile (\<lambda>c. c \<noteq> CHR ''='') ev))"

definition key_value_format :: "string \<Rightarrow> bool" where
  "key_value_format ev = (CHR ''='' \<in> set ev)"

section \<open>stage0: configuration, manifests and the host (stage0/run.go)\<close>

text \<open>
  Go's \<open>error\<close> is kept as its message; \<open>None\<close> is \<open>nil\<close>. A \<open>types.Hash\<close> is kept
  as its \<open>String()\<close> form and a \<open>types.UUID\<close> likewise.
\<close>

type_synonym error = string

type_synonym Hash = string

type_synonym Volume = string

text \<open>
  The parts of the appc schema that \<open>Prepare\<close> reads and builds: an image manifest
  with its optional app section, and the pod manifest with one runtime app per image.
\<close>

record App =
  Exec :: "string list"
  App_Environment :: Environment

record ImageManifest =
  im_Name :: string
  im_App :: "App option"
  im_Annotations :: "(string \<times> string) list"

record RuntimeImage =
  ri_Name :: string
  ri_ID :: Hash

record RuntimeApp =
  ra_Name :: string
  ra_Image :: RuntimeImage
  ra_App :: "App option"
  ra_Annotations :: "(string \<times> string) list"

record PodManifest =
  ACKind :: string
  ACVersion :: string
  Apps :: "RuntimeApp list"
  pm_Volumes :: "Volume list"

text \<open>\<open>AppList.Get\<close>: the first app of the given name, or nil.\<close>

definition AppList_Get :: "RuntimeApp list \<Rightarrow> string \<Rightarrow> RuntimeApp option" where
  "AppList_Get al name = find (\<lambda>a. ra_Name a = name) al"

text \<open>
  The three configuration structs; \<open>PrepareConfig\<close> and \<open>RunConfig\<close> embed
  \<open>CommonConfig\<close>. The store of the configuration is reached through the host below.
\<close>

record CommonConfig =
  Stage1Image :: Hash
  UUID :: string
  Images :: "Hash list"
  PodsDir :: string
  Debug :: bool

record PrepareConfig = CommonConfig +
  ExecAppends :: "string list list"
  InheritEnv :: bool
  ExplicitEnv :: "string list"
  Volumes :: "Volume list"
  UseOverlay :: bool

record RunConfig = CommonConfig +
  PrivateNet :: bool
  SpawnMetadataService :: bool
  LockFd :: int
  Interactive :: bool

text \<open>
  Names and paths declared in package \<open>common\<close>, which is not among the sources; they
  are parameters of the model. (The life-cycle document names the lock variable:
  \<open>RKT_LOCK_FD\<close>.)
\<close>

record common =
  PodManifestPath :: "string \<Rightarrow> string"
  Stage1IDFilename :: string
  OverlayPreparedFilename :: string
  Stage1ImagePath :: "string \<Rightarrow> string"
  Stage1RootfsPath :: "string \<Rightarrow> string"
  Stage1ManifestPath :: "string \<Rightarrow> string"
  AppImagePath :: "string \<Rightarrow> Hash \<Rightarrow> string"
  EnvLockFd :: string
  Version :: string

text \<open>
  The state of the process that the functions below change: the regular files it can
  see (path to content), its environment block (entries \<open>name=value\<close>, in order) and
  its open file descriptors, each with its close-on-exec flag.
\<close>

record process =
  files :: "string \<rightharpoonup> string"
  envs :: "string list"
  fds :: "int \<rightharpoonup> bool"

text \<open>
  The outcomes of the calls into the store, the renderer, the kernel and the standard
  library whose code is outside these functions. Each is a function of the call's
  arguments; a call that creates directories, renders a tree or mounts is kept by its
  outcome only: it works below the pod directory's \<open>stage1\<close> and \<open>overlay\<close> trees and
  in the store, and leaves the files that these functions write themselves alone.
\<close>

record host =
  MkdirAll :: "string \<Rightarrow> error option"
  RenderTreeStore :: "string \<Rightarrow> bool \<Rightarrow> error option"
  CheckTreeStore :: "string \<Rightarrow> error option"
  RenderACIWithImageID :: "Hash \<Rightarrow> string \<Rightarrow> error option"
  GetImageManifest :: "string \<Rightarrow> error + ImageManifest"
  GetTreeStoreRootFS :: "string \<Rightarrow> string"
  NewSemVer :: "string \<Rightarrow> error + string"
  Marshal_PodManifest :: "PodManifest \<Rightarrow> error + string"
  Marshal_ImageManifest :: "ImageManifest \<Rightarrow> error + string"
  Unmarshal_ImageManifest :: "string \<Rightarrow> error + ImageManifest"
  WriteFile_err :: "string \<Rightarrow> error option"
  Create_err :: "string \<Rightarrow> error option"
  Stat_err :: "string \<Rightarrow> error option"
  ReadFile_err :: "string \<Rightarrow> error option"
  SupportsOverlay :: bool
  Unshare_err :: "error option"
  Mount_err :: "string \<Rightarrow> string \<Rightarrow> string \<Rightarrow> nat \<Rightarrow> string \<Rightarrow> error option"
  Chdir_err :: "string \<Rightarrow> error option"
  Readlink_err :: "string \<Rightarrow> error + string"
  Start_err :: "string list \<Rightarrow> error option"
  Exec_err :: "string \<Rightarrow> error option"

text \<open>
  \<open>filepath.Join\<close> and \<open>path.Join\<close> of two elements: empty elements are dropped and
  the rest joined by a slash. (Go also cleans the result; the paths here are clean.)
\<close>

definition Join :: "string \<Rightarrow> string \<Rightarrow> string" where
  "Join a b = (if a = [] then b else if b = [] then a else a @ ''/'' @ b)"

text \<open>File operations of the standard library, on the files of the process.\<close>

definition WriteFile :: "host \<Rightarrow> string \<Rightarrow> string \<Rightarrow> process \<Rightarrow> error + process" where
  "WriteFile h fn data p =
     (case WriteFile_err h fn of
        Some err \<Rightarrow> Inl err
      | None \<Rightarrow> Inr (p\<lparr>files := (files p)(fn \<mapsto> data)\<rparr>))"

definition Create :: "host \<Rightarrow> string \<Rightarrow> process \<Rightarrow> error + process" where
  "Create h fn p =
     (case Create_err h fn of
        Some err \<Rightarrow> Inl err
      | None \<Rightarrow> Inr (p\<lparr>files := (files p)(fn \<mapsto> [])\<rparr>))"

datatype stat_result = StatOk | NotExist | StatError error

definition Stat :: "host \<Rightarrow> string \<Rightarrow> process \<Rightarrow> stat_result" where
  "Stat h fn p =
     (case Stat_err h fn of
        Some err \<Rightarrow> StatError err
      | None \<Rightarrow> if fn \<in> dom (files p) then StatOk else NotExist)"

definition ReadFile :: "host \<Rightarrow> string \<Rightarrow> process \<Rightarrow> error + string" where
  "ReadFile h fn p =
     (case ReadFile_err h fn of
        Some err \<Rightarrow> Inl err
      | None \<Rightarrow>
          (case files p fn of
             None \<Rightarrow> Inl ''no such file or directory''
           | Some b \<Rightarrow> Inr b))"

text \<open>
  How a call ends: it returns a value, returns an error, or panics.
\<close>

datatype 'a outcome = Return 'a | Error error | Panics panic

section \<open>stage0: Prepare (stage0/run.go)\<close>

definition prepareStage1Image :: "common \<Rightarrow> host \<Rightarrow> Hash \<Rightarrow> string \<Rightarrow> bool \<Rightarrow> error option" where
  "prepareStage1Image c h img cdir useOverlay =
     (let s1 = Stage1ImagePath c cdir in
      case MkdirAll h s1 of
        Some err \<Rightarrow> Some (''error creating stage1 directory: '' @ err)
      | None \<Rightarrow>
          (case RenderTreeStore h img False of
             Some err \<Rightarrow> Some (''error rendering tree image: '' @ err)
           | None \<Rightarrow>
               (case (case CheckTreeStore h img of
                        Some _ \<Rightarrow>
                          (case RenderTreeStore h img True of
                             Some err \<Rightarrow> Some (''error rendering tree image: '' @ err)
                           | None \<Rightarrow> None)
                      | None \<Rightarrow> None) of
                  Some e \<Rightarrow> Some e
                | None \<Rightarrow>
                    if \<not> useOverlay then
                      (case RenderACIWithImageID h img s1 of
                         Some err \<Rightarrow> Some (''error rendering ACI: '' @ err)
                       | None \<Rightarrow> None)
                    else None)))"

definition prepareAppImage :: "common \<Rightarrow> host \<Rightarrow> Hash \<Rightarrow> string \<Rightarrow> bool \<Rightarrow> error + ImageManifest" where
  "prepareAppImage c h img cdir useOverlay =
     (case (if useOverlay then
              (case RenderTreeStore h img False of
                 Some err \<Rightarrow> Some (''error rendering tree image: '' @ err)
               | None \<Rightarrow>
                   (case CheckTreeStore h img of
                      Some _ \<Rightarrow>
                        (case RenderTreeStore h img True of
                           Some err \<Rightarrow> Some (''error rendering tree image: '' @ err)
                         | None \<Rightarrow> None)
                    | None \<Rightarrow> None))
            else
              (let ad = AppImagePath c cdir img in
               case MkdirAll h ad of
                 Some err \<Rightarrow> Some (''error creating image directory: '' @ err)
               | None \<Rightarrow>
                   (case RenderACIWithImageID h img ad of
                      Some err \<Rightarrow> Some (''error rendering ACI: '' @ err)
                    | None \<Rightarrow> None))) of
        Some e \<Rightarrow> Inl e
      | None \<Rightarrow>
          (case GetImageManifest h img of
             Inl err \<Rightarrow> Inl (''error getting the manifest: '' @ err)
           | Inr am \<Rightarrow> Inr am))"

text \<open>
  One round of the loop over \<open>cfg.Images\<close>, for the image \<open>img\<close> at index \<open>i\<close>, with the
  apps collected so far. \<open>a.App\<close> is nil or points to the manifest's own app section,
  which the appended exec arguments and the merged environment change in place.
\<close>

definition Prepare_image ::
  "common \<Rightarrow> host \<Rightarrow> PrepareConfig \<Rightarrow> string \<Rightarrow> process \<Rightarrow> nat \<Rightarrow> Hash \<Rightarrow> RuntimeApp list
     \<Rightarrow> RuntimeApp list outcome" where
  "Prepare_image c h cfg dir p i img apps =
     (case prepareAppImage c h img dir (UseOverlay cfg) of
        Inl err \<Rightarrow> Error (''error setting up image '' @ img @ '': '' @ err)
      | Inr am \<Rightarrow>
          if AppList_Get apps (im_Name am) \<noteq> None
          then Error (''error: multiple apps with name '' @ im_Name am)
          else
            (case im_App am of
               None \<Rightarrow> Error (''error: image '' @ img @ '' has no app section'')
             | Some app \<Rightarrow>
                 let a = \<lparr>ra_Name = im_Name am,
                          ra_Image = \<lparr>ri_Name = im_Name am, ri_ID = img\<rparr>,
                          ra_App = None,
                          ra_Annotations = im_Annotations am\<rparr> in
                 (case index (ExecAppends cfg) i of
                    Inl pn \<Rightarrow> Panics pn
                  | Inr ea \<Rightarrow>
                      let app1 = (if length ea > 0 then app\<lparr>Exec := Exec app @ ea\<rparr> else app);
                          a1 = (if length ea > 0 then a\<lparr>ra_App := Some app1\<rparr> else a) in
                      if InheritEnv cfg \<or> length (ExplicitEnv cfg) > 0 then
                        (case MergeEnvs (App_Environment app1) (InheritEnv cfg) (ExplicitEnv cfg)
                                (envs p) of
                           Inl pn \<Rightarrow> Panics pn
                         | Inr e \<Rightarrow>
                             Return (apps @ [a1\<lparr>ra_App := Some (app1\<lparr>App_Environment := e\<rparr>)\<rparr>]))
                      else Return (apps @ [a1]))))"

fun Prepare_images ::
  "common \<Rightarrow> host \<Rightarrow> PrepareConfig \<Rightarrow> string \<Rightarrow> process \<Rightarrow> nat \<Rightarrow> Hash list \<Rightarrow> RuntimeApp list
     \<Rightarrow> RuntimeApp list outcome" where
  "Prepare_images c h cfg dir p i [] apps = Return apps"
| "Prepare_images c h cfg dir p i (img # imgs) apps =
     (case Prepare_image c h cfg dir p i img apps of
        Return apps' \<Rightarrow> Prepare_images c h cfg dir p (Suc i) imgs apps'
      | Error err \<Rightarrow> Error err
      | Panics pn \<Rightarrow> Panics pn)"

text \<open>
  \<open>Prepare\<close>. The result is the process after the call when it returns nil. (The
  file the overlay marker is created as is closed on return; the \<open>uuid\<close> argument is
  not read.)
\<close>

definition Prepare ::
  "common \<Rightarrow> host \<Rightarrow> PrepareConfig \<Rightarrow> string \<Rightarrow> string \<Rightarrow> process \<Rightarrow> process outcome" where
  "Prepare c h cfg dir uuid p =
     (case prepareStage1Image c h (Stage1Image cfg) dir (UseOverlay cfg) of
        Some err \<Rightarrow> Error (''error preparing stage1: '' @ err)
      | None \<Rightarrow>
          (case NewSemVer h (Version c) of
             Inl err \<Rightarrow> Error (''error creating version: '' @ err)
           | Inr v \<Rightarrow>
               (case Prepare_images c h cfg dir p 0 (Images cfg) [] of
                  Error err \<Rightarrow> Error err
                | Panics pn \<Rightarrow> Panics pn
                | Return apps \<Rightarrow>
                    let cm = \<lparr>ACKind = ''PodManifest'', ACVersion = v, Apps = apps,
                              pm_Volumes = Volumes cfg\<rparr> in
                    (case Marshal_PodManifest h cm of
                       Inl err \<Rightarrow> Error (''error marshalling pod manifest: '' @ err)
                     | Inr cdoc \<Rightarrow>
                         (case WriteFile h (PodManifestPath c dir) cdoc p of
                            Inl err \<Rightarrow> Error (''error writing pod manifest: '' @ err)
                          | Inr p1 \<Rightarrow>
                              (case WriteFile h (Join dir (Stage1IDFilename c)) (Stage1Image cfg) p1 of
                                 Inl err \<Rightarrow> Error (''error writing stage1 ID: '' @ err)
                               | Inr p2 \<Rightarrow>
                                   if UseOverlay cfg then
                                     (case Create h (Join dir (OverlayPreparedFilename c)) p2 of
                                        Inl err \<Rightarrow> Error (''error writing overlay marker file: '' @ err)
                                      | Inr p3 \<Rightarrow> Return p3)
                                   else Return p2))))))"

text \<open>
  \<open>preparedWithOverlay\<close>: whether the pod directory holds the overlay marker, and an
  error when it does but the host has no overlay support.
\<close>

definition preparedWithOverlay :: "common \<Rightarrow> host \<Rightarrow> string \<Rightarrow> process \<Rightarrow> error + bool" where
  "preparedWithOverlay c h dir p =
     (case Stat h (Join dir (OverlayPreparedFilename c)) p of
        NotExist \<Rightarrow> Inr False
      | StatError err \<Rightarrow> Inl err
      | StatOk \<Rightarrow>
          if \<not> SupportsOverlay h
          then Inl ''the pod was prepared with overlay but overlay is not supported''
          else Inr True)"

section \<open>stage0: Run (stage0/run.go, stage0/entrypoint.go)\<close>

text \<open>
  \<open>fmt.Sprintf("%v", n)\<close> for an \<open>int\<close>: the decimal digits, after a minus sign when
  the number is negative.
\<close>

definition digit_char :: "nat \<Rightarrow> char" where
  "digit_char d = char_of (48 + d)"

fun nat_dec :: "nat \<Rightarrow> string" where
  "nat_dec n = (if n < 10 then [digit_char n] else nat_dec (n div 10) @ [digit_char (n mod 10)])"

declare nat_dec.simps [simp del]

definition Sprintf_v :: "int \<Rightarrow> string" where
  "Sprintf_v i = (if i < 0 then CHR ''-'' # nat_dec (nat (- i)) else nat_dec (nat i))"

text \<open>
  Reading a decimal number back, as the receiver of the variable does.
\<close>

definition digit_value :: "char \<Rightarrow> nat" where
  "digit_value ch = of_char ch - 48"

definition dec_value :: "string \<Rightarrow> nat" where
  "dec_value s = foldl (\<lambda>acc ch. 10 * acc + digit_value ch) 0 s"

definition Atoi :: "string \<Rightarrow> int" where
  "Atoi s = (case s of
               [] \<Rightarrow> 0
             | ch # r \<Rightarrow> if ch = CHR ''-'' then - int (dec_value r) else int (dec_value s))"

text \<open>
  The environment block. An entry has a name when it holds an \<open>=\<close>. \<open>os.Setenv\<close>
  refuses an empty key, a key with \<open>=\<close> or a zero byte and a value with a zero byte;
  otherwise it overwrites the first entry of that name, or appends one. \<open>Getenv\<close> is
  the value of the first entry of a name, which is what a process started with the
  block reads.
\<close>

definition entry_name :: "string \<Rightarrow> string option" where
  "entry_name e =
     (if CHR ''='' \<in> set e then Some (takeWhile (\<lambda>c. c \<noteq> CHR ''='') e) else None)"

fun set_entry :: "string list \<Rightarrow> string \<Rightarrow> string \<Rightarrow> string list" where
  "set_entry [] key kv = [kv]"
| "set_entry (e # es) key kv =
     (if entry_name e = Some key then kv # es else e # set_entry es key kv)"

definition Setenv :: "string \<Rightarrow> string \<Rightarrow> process \<Rightarrow> error + process" where
  "Setenv key val p =
     (if length key = 0 then Inl ''invalid argument''
      else if CHR ''='' \<in> set key \<or> CHR 0x00 \<in> set key then Inl ''invalid argument''
      else if CHR 0x00 \<in> set val then Inl ''invalid argument''
      else Inr (p\<lparr>envs := set_entry (envs p) key (key @ ''='' @ val)\<rparr>))"

fun Getenv :: "string list \<Rightarrow> string \<Rightarrow> string option" where
  "Getenv [] key = None"
| "Getenv (e # es) key =
     (if entry_name e = Some key then Some (tl (dropWhile (\<lambda>c. c \<noteq> CHR ''='') e))
      else Getenv es key)"

definition Environ :: "process \<Rightarrow> string list" where
  "Environ p = envs p"

text \<open>
  \<open>sys.CloseOnExec(fd, set)\<close>, of a package that is not among the sources: by
  \<open>Run\<close>'s comment and error message it sets or clears \<open>FD_CLOEXEC\<close> on the
  descriptor (\<open>fcntl\<close> with \<open>F_SETFD\<close>), which fails on a descriptor that is not open.
\<close>

definition CloseOnExec :: "int \<Rightarrow> bool \<Rightarrow> process \<Rightarrow> error + process" where
  "CloseOnExec fd on p =
     (if fd \<in> dom (fds p) then Inr (p\<lparr>fds := (fds p)(fd \<mapsto> on)\<rparr>)
      else Inl ''bad file descriptor'')"

text \<open>
  How \<open>Run\<close> ends: \<open>log.Fatalf\<close> exits the process, or \<open>syscall.Exec\<close> replaces
  its image by the program at the given path, with the given arguments and environment
  block; the descriptors without close-on-exec stay open in the new image.
\<close>

datatype run_result =
    Fatal string
  | Execed string "string list" "string list" "int set"

definition inherited_fds :: "process \<Rightarrow> int set" where
  "inherited_fds p = {fd. fds p fd = Some False}"

definition syscall_Exec :: "host \<Rightarrow> string \<Rightarrow> string list \<Rightarrow> string list \<Rightarrow> process \<Rightarrow> error + run_result" where
  "syscall_Exec h argv0 argv envv p =
     (case Exec_err h argv0 of
        Some err \<Rightarrow> Inl err
      | None \<Rightarrow> Inr (Execed argv0 argv envv (inherited_fds p)))"

definition MS_REC :: nat where "MS_REC = 16384"
definition MS_SLAVE :: nat where "MS_SLAVE = 524288"
definition MS_SHARED :: nat where "MS_SHARED = 1048576"

text \<open>
  \<open>overlayRender\<close>: writes the image manifest into \<open>dest\<close> and mounts an overlay of
  the image's cached tree on \<open>dest/rootfs\<close>.
\<close>

definition overlayRender :: "host \<Rightarrow> Hash \<Rightarrow> string \<Rightarrow> string \<Rightarrow> process \<Rightarrow> error + process" where
  "overlayRender h img cdir dest p =
     (case GetImageManifest h img of
        Inl err \<Rightarrow> Inl err
      | Inr manifest \<Rightarrow>
          (case Marshal_ImageManifest h manifest of
             Inl err \<Rightarrow> Inl (''error marshalling image manifest: '' @ err)
           | Inr mb \<Rightarrow>
               (case WriteFile h (Join dest ''manifest'') mb p of
                  Inl err \<Rightarrow> Inl (''error writing pod manifest: '' @ err)
                | Inr p1 \<Rightarrow>
                    let destRootfs = Join dest ''rootfs'' in
                    (case MkdirAll h destRootfs of
                       Some err \<Rightarrow> Inl err
                     | None \<Rightarrow>
                         let cachedTreePath = GetTreeStoreRootFS h img;
                             overlayDir = Join (Join cdir ''overlay'') img in
                         (case MkdirAll h overlayDir of
                            Some err \<Rightarrow> Inl err
                          | None \<Rightarrow>
                              let upperDir = Join overlayDir ''upper'' in
                              (case MkdirAll h upperDir of
                                 Some err \<Rightarrow> Inl err
                               | None \<Rightarrow>
                                   let workDir = Join overlayDir ''work'' in
                                   (case MkdirAll h workDir of
                                      Some err \<Rightarrow> Inl err
                                    | None \<Rightarrow>
                                        let opts = ''lowerdir='' @ cachedTreePath @ '',upperdir=''
                                                   @ upperDir @ '',workdir='' @ workDir in
                                        (case Mount_err h ''overlay'' destRootfs ''overlay'' 0 opts of
                                           Some err \<Rightarrow> Inl (''error mounting: '' @ err)
                                         | None \<Rightarrow> Inr p1))))))))"

definition setupStage1Image :: "common \<Rightarrow> host \<Rightarrow> Hash \<Rightarrow> string \<Rightarrow> bool \<Rightarrow> process \<Rightarrow> error + process" where
  "setupStage1Image c h img cdir useOverlay p =
     (if useOverlay then
        (let s1 = Stage1ImagePath c cdir in
         case overlayRender h img cdir s1 p of
           Inl err \<Rightarrow> Inl (''error rendering overlay filesystem: '' @ err)
         | Inr p1 \<Rightarrow> Inr p1)
      else Inr p)"

definition setupAppImage :: "common \<Rightarrow> host \<Rightarrow> Hash \<Rightarrow> string \<Rightarrow> bool \<Rightarrow> process \<Rightarrow> error + process" where
  "setupAppImage c h img cdir useOverlay p =
     (let ad = AppImagePath c cdir img in
      case (if useOverlay then
              (case MkdirAll h ad of
                 Some err \<Rightarrow> Inl (''error creating image directory: '' @ err)
               | None \<Rightarrow>
                   (case overlayRender h img cdir ad p of
                      Inl err \<Rightarrow> Inl (''error rendering overlay filesystem: '' @ err)
                    | Inr p1 \<Rightarrow> Inr p1))
            else Inr p) of
        Inl e \<Rightarrow> Inl e
      | Inr p1 \<Rightarrow>
          (case MkdirAll h (Join ad ''rootfs/tmp'') of
             Some err \<Rightarrow> Inl (''error creating tmp directory: '' @ err)
           | None \<Rightarrow> Inr p1))"

text \<open>The loop of \<open>Run\<close> over \<open>cfg.Images\<close>; the first error ends the process.\<close>

fun Run_images :: "common \<Rightarrow> host \<Rightarrow> Hash list \<Rightarrow> string \<Rightarrow> bool \<Rightarrow> process \<Rightarrow> error + process" where
  "Run_images c h [] dir useOverlay p = Inr p"
| "Run_images c h (img # imgs) dir useOverlay p =
     (case setupAppImage c h img dir useOverlay p of
        Inl err \<Rightarrow> Inl err
      | Inr p1 \<Rightarrow> Run_images c h imgs dir useOverlay p1)"

definition launchMetadataService :: "host \<Rightarrow> bool \<Rightarrow> error option" where
  "launchMetadataService h debug =
     (case Readlink_err h ''/proc/self/exe'' of
        Inl err \<Rightarrow> Some (''error reading /proc/self/exe link: '' @ err)
      | Inr exe \<Rightarrow>
          let args = [exe];
              args = (if debug then args @ [''--debug''] else args);
              args = args @ [''metadata-service'', ''--no-idle''] in
          Start_err h args)"

definition enterEntrypoint :: string where
  "enterEntrypoint = ''coreos.com/rkt/stage1/enter''"

definition runEntrypoint :: string where
  "runEntrypoint = ''coreos.com/rkt/stage1/run''"

definition getStage1Entrypoint :: "common \<Rightarrow> host \<Rightarrow> string \<Rightarrow> string \<Rightarrow> process \<Rightarrow> error + string" where
  "getStage1Entrypoint c h cdir entrypoint p =
     (case ReadFile h (Stage1ManifestPath c cdir) p of
        Inl err \<Rightarrow> Inl (''error reading pod manifest: '' @ err)
      | Inr b \<Rightarrow>
          (case Unmarshal_ImageManifest h b of
             Inl err \<Rightarrow> Inl (''error unmarshaling stage1 manifest: '' @ err)
           | Inr s1m \<Rightarrow>
               (case map_of (im_Annotations s1m) entrypoint of
                  Some ep \<Rightarrow> Inr ep
                | None \<Rightarrow> Inl (''entrypoint '' @ entrypoint @ '' not found''))))"

text \<open>
  The part of \<open>Run\<close> before the lock variable is set: overlay detection, the private
  mount namespace, and the set-up of the stage-1 and app images. It gives the message
  of the \<open>log.Fatalf\<close> that ends the process, or the process so far.
\<close>

definition Run_setup :: "common \<Rightarrow> host \<Rightarrow> RunConfig \<Rightarrow> string \<Rightarrow> process \<Rightarrow> string + process" where
  "Run_setup c h cfg dir p =
     (case preparedWithOverlay c h dir p of
        Inl err \<Rightarrow> Inl (''error: '' @ err)
      | Inr useOverlay \<Rightarrow>
          (case (if useOverlay then
                   (case Unshare_err h of
                      Some err \<Rightarrow> Some (''error unsharing: '' @ err)
                    | None \<Rightarrow>
                        (case Mount_err h '''' ''/'' ''none'' (MS_REC + MS_SLAVE) '''' of
                           Some err \<Rightarrow> Some (''error making / a slave mount: '' @ err)
                         | None \<Rightarrow>
                             (case Mount_err h '''' ''/'' ''none'' (MS_REC + MS_SHARED) '''' of
                                Some err \<Rightarrow> Some (''error making / a shared and slave mount: '' @ err)
                              | None \<Rightarrow> None)))
                 else None) of
             Some msg \<Rightarrow> Inl msg
           | None \<Rightarrow>
               (case setupStage1Image c h (Stage1Image cfg) dir useOverlay p of
                  Inl err \<Rightarrow> Inl (''error setting up stage1: '' @ err)
                | Inr p1 \<Rightarrow>
                    (case Run_images c h (Images cfg) dir useOverlay p1 of
                       Inl err \<Rightarrow> Inl (''error setting up app image: '' @ err)
                     | Inr p2 \<Rightarrow> Inr p2))))"

text \<open>
  \<open>Run\<close>. A failure to launch the metadata service is logged only.
\<close>

definition Run :: "common \<Rightarrow> host \<Rightarrow> RunConfig \<Rightarrow> string \<Rightarrow> process \<Rightarrow> run_result" where
  "Run c h cfg dir p =
     (case Run_setup c h cfg dir p of
        Inl msg \<Rightarrow> Fatal msg
      | Inr p2 \<Rightarrow>
          (case Setenv (EnvLockFd c) (Sprintf_v (LockFd cfg)) p2 of
             Inl err \<Rightarrow> Fatal (''setting lock fd environment: '' @ err)
           | Inr p3 \<Rightarrow>
               let launched = (if SpawnMetadataService cfg
                               then launchMetadataService h (Debug cfg) else None) in
               (case Chdir_err h dir of
                  Some err \<Rightarrow> Fatal (''failed changing to dir: '' @ err)
                | None \<Rightarrow>
                    (case getStage1Entrypoint c h dir runEntrypoint p3 of
                       Inl err \<Rightarrow> Fatal (''error determining init entrypoint: '' @ err)
                     | Inr ep \<Rightarrow>
                         let args = [Join (Stage1RootfsPath c dir) ep];
                             args = (if Debug cfg then args @ [''--debug''] else args);
                             args = (if PrivateNet cfg then args @ [''--private-net''] else args);
                             args = (if Interactive cfg then args @ [''--interactive''] else args);
                             args = args @ [UUID cfg] in
                         (case CloseOnExec (LockFd cfg) False p3 of
                            Inl err \<Rightarrow> Fatal ''error clearing FD_CLOEXEC on lock fd''
                          | Inr p4 \<Rightarrow>
                              (case syscall_Exec h (args ! 0) args (Environ p4) p4 of
                                 Inl err \<Rightarrow> Fatal (''error execing init: '' @ err)
                               | Inr r \<Rightarrow> r))))))"

section \<open>A concrete host\<close>

text \<open>
  The names of rkt's package \<open>common\<close>, and a host on which every call succeeds and
  every image has an app section; they serve to run the functions above on concrete
  inputs.
\<close>

definition rkt_common :: common where
  "rkt_common =
     \<lparr>PodManifestPath = (\<lambda>root. Join root ''pod''),
      Stage1IDFilename = ''stage1ID'',
      OverlayPreparedFilename = ''overlay-prepared'',
      Stage1ImagePath = (\<lambda>root. Join root ''stage1''),
      Stage1RootfsPath = (\<lambda>root. Join root ''stage1/rootfs''),
      Stage1ManifestPath = (\<lambda>root. Join root ''stage1/manifest''),
      AppImagePath = (\<lambda>root img. Join (Join root ''stage1/rootfs/opt/stage2'') img),
      EnvLockFd = ''RKT_LOCK_FD'',
      Version = ''0.5.5''\<rparr>"

definition quiet_host :: host where
  "quiet_host =
     \<lparr>MkdirAll = (\<lambda>_. None),
      RenderTreeStore = (\<lambda>_ _. None),
      CheckTreeStore = (\<lambda>_. None),
      RenderACIWithImageID = (\<lambda>_ _. None),
      GetImageManifest = (\<lambda>key. Inr \<lparr>im_Name = ''app-'' @ key,
         im_App = Some \<lparr>Exec = [''/bin/sh''], App_Environment = []\<rparr>,
         im_Annotations = []\<rparr>),
      GetTreeStoreRootFS = (\<lambda>key. Join ''/var/lib/rkt/cas/tree'' (Join key ''rootfs'')),
      NewSemVer = (\<lambda>v. Inr v),
      Marshal_PodManifest = (\<lambda>cm. Inr (''{acKind:'' @ ACKind cm @ ''}'')),
      Marshal_ImageManifest = (\<lambda>im. Inr (''{name:'' @ im_Name im @ ''}'')),
      Unmarshal_ImageManifest = (\<lambda>b. Inr \<lparr>im_Name = ''stage1'', im_App = None,
         im_Annotations = [(''coreos.com/rkt/stage1/run'', ''init''),
                           (''coreos.com/rkt/stage1/enter'', ''enter'')]\<rparr>),
      WriteFile_err = (\<lambda>_. None),
      Create_err = (\<lambda>_. None),
      Stat_err = (\<lambda>_. None),
      ReadFile_err = (\<lambda>_. None),
      SupportsOverlay = True,
      Unshare_err = None,
      Mount_err = (\<lambda>_ _ _ _ _. None),
      Chdir_err = (\<lambda>_. None),
      Readlink_err = (\<lambda>_. Inr ''/usr/bin/rkt''),
      Start_err = (\<lambda>_. None),
      Exec_err = (\<lambda>_. None)\<rparr>"

section \<open>The pod directories and the collector\<close>

text \<open>
  The functions that move pod directories, take their locks and collect them (the
  \<open>rkt gc\<close>, \<open>rkt status\<close> and \<open>rkt run-prepared\<close> commands) are not among the sources;
  only the life-cycle document is. The definitions of this section follow the
  specification's sections 3 and 4.
\<close>

type_synonym uuid = string

text \<open>
  Modelled from the spec: the pod directory set (section 2), a fixed collection of
  sibling directories, each a flat namespace of subdirectories named by pod UUIDs.
\<close>

datatype location = EmbryoDir | PrepareDir | PreparedDir | RunDir | ExitedGarbageDir | GarbageDir

text \<open>
  Modelled from the spec: the advisory lock primitive (section 4.1). A lock is free,
  held shared (\<open>HeldShared n\<close>: by \<open>n + 1\<close> descriptors), or held exclusively; a
  non-blocking acquisition is refused (\<open>Busy\<close>) when the lock is held incompatibly.
\<close>

datatype lock_mode = Exclusive | Shared

datatype lock_state = Free | HeldShared nat | HeldExclusive

fun try_lock :: "lock_mode \<Rightarrow> lock_state \<Rightarrow> lock_state option" where
  "try_lock Shared Free = Some (HeldShared 0)"
| "try_lock Shared (HeldShared n) = Some (HeldShared (Suc n))"
| "try_lock Shared HeldExclusive = None"
| "try_lock Exclusive Free = Some HeldExclusive"
| "try_lock Exclusive (HeldShared n) = None"
| "try_lock Exclusive HeldExclusive = None"

fun unlock :: "lock_mode \<Rightarrow> lock_state \<Rightarrow> lock_state" where
  "unlock Shared (HeldShared 0) = Free"
| "unlock Shared (HeldShared (Suc n)) = HeldShared n"
| "unlock Exclusive HeldExclusive = Free"
| "unlock m l = l"

text \<open>
  Modelled from the spec: a pod's directory (sections 3 and 6): the state of its lock,
  its change-time, and the names of the metadata files in it, which this core does not
  interpret. The lock belongs to the directory and moves with it.
\<close>

record pod_dir =
  lock :: lock_state
  change_time :: int
  metadata :: "string list"

text \<open>
  Modelled from the spec: the persistent state (section 3), the entries of each
  top-level directory in listing order, and the current time.
\<close>

record pods =
  dirs :: "location \<Rightarrow> (uuid \<times> pod_dir) list"
  clock :: int

definition lookup :: "pods \<Rightarrow> location \<Rightarrow> uuid \<Rightarrow> pod_dir option" where
  "lookup st d u = map_of (dirs st d) u"

definition readdir :: "pods \<Rightarrow> location \<Rightarrow> uuid list" where
  "readdir st d = map fst (dirs st d)"

definition put :: "pods \<Rightarrow> location \<Rightarrow> uuid \<Rightarrow> pod_dir \<Rightarrow> pods" where
  "put st d u e = st\<lparr>dirs := (dirs st)(d := AList.update u e (dirs st d))\<rparr>"

definition remove_tree :: "pods \<Rightarrow> location \<Rightarrow> uuid \<Rightarrow> pods" where
  "remove_tree st d u = st\<lparr>dirs := (dirs st)(d := AList.delete u (dirs st d))\<rparr>"

text \<open>
  Modelled from the spec: \<open>acquire(path, mode, blocking)\<close> in its non-blocking form and
  \<open>release\<close> (section 4.1). The result is the state with the lock taken, \<open>Busy\<close>, or
  an error when the path names no directory.
\<close>

datatype acquired = LockHandle pods | Busy | NoSuchDirectory

definition acquire :: "pods \<Rightarrow> location \<Rightarrow> uuid \<Rightarrow> lock_mode \<Rightarrow> acquired" where
  "acquire st d u m =
     (case lookup st d u of
        None \<Rightarrow> NoSuchDirectory
      | Some e \<Rightarrow>
          (case try_lock m (lock e) of
             None \<Rightarrow> Busy
           | Some l \<Rightarrow> LockHandle (put st d u (e\<lparr>lock := l\<rparr>))))"

definition release :: "pods \<Rightarrow> location \<Rightarrow> uuid \<Rightarrow> lock_mode \<Rightarrow> pods" where
  "release st d u m =
     (case lookup st d u of
        None \<Rightarrow> st
      | Some e \<Rightarrow> put st d u (e\<lparr>lock := unlock m (lock e)\<rparr>))"

text \<open>
  Modelled from the spec: the atomic rename of a pod directory from one top-level
  directory to another (sections 3 and 5). It moves the directory as a unit, sets its
  change-time, and fails when the source no longer exists; a target of the same name
  makes it fail as well.
\<close>

datatype renamed = Renamed pods | SourceVanished | TargetExists

definition rename :: "pods \<Rightarrow> location \<Rightarrow> location \<Rightarrow> uuid \<Rightarrow> renamed" where
  "rename st src dst u =
     (case lookup st src u of
        None \<Rightarrow> SourceVanished
      | Some e \<Rightarrow>
          (case lookup st dst u of
             Some _ \<Rightarrow> TargetExists
           | None \<Rightarrow>
               Renamed (put (remove_tree st src u) dst u (e\<lparr>change_time := clock st\<rparr>))))"

text \<open>
  Modelled from the spec: the mark pass (section 4.3). For every entry of the source
  directory: attempt a non-blocking shared lock; if it fails, skip; if it succeeds,
  rename the entry into the garbage directory, then release the lock immediately.
  Exited pods are marked from \<open>run/\<close> into \<open>exited-garbage/\<close>, failed preparations
  from \<open>prepare/\<close> into \<open>garbage/\<close>.
\<close>

definition mark_one :: "location \<Rightarrow> location \<Rightarrow> pods \<Rightarrow> uuid \<Rightarrow> pods" where
  "mark_one src dst st u =
     (case acquire st src u Shared of
        Busy \<Rightarrow> st
      | NoSuchDirectory \<Rightarrow> st
      | LockHandle st1 \<Rightarrow>
          (case rename st1 src dst u of
             Renamed st2 \<Rightarrow> release st2 dst u Shared
           | SourceVanished \<Rightarrow> release st1 src u Shared
           | TargetExists \<Rightarrow> release st1 src u Shared))"

definition mark_pass :: "location \<Rightarrow> location \<Rightarrow> pods \<Rightarrow> pods" where
  "mark_pass src dst st = foldl (mark_one src dst) st (readdir st src)"

definition mark_exited :: "pods \<Rightarrow> pods" where
  "mark_exited st = mark_pass RunDir ExitedGarbageDir st"

definition mark_failed_prepares :: "pods \<Rightarrow> pods" where
  "mark_failed_prepares st = mark_pass PrepareDir GarbageDir st"

text \<open>
  Modelled from the spec: the sweep pass (section 4.3). For every entry of the garbage
  directory: if \<open>now - change_time < gracePeriod\<close>, skip; otherwise attempt a
  non-blocking exclusive lock; if it fails, skip; if it succeeds, delete the directory
  tree. The second component collects the UUIDs deleted, in order.
\<close>

definition sweep_one :: "int \<Rightarrow> location \<Rightarrow> pods \<times> uuid list \<Rightarrow> uuid \<Rightarrow> pods \<times> uuid list" where
  "sweep_one gracePeriod d acc u =
     (let st = fst acc in
      case lookup st d u of
        None \<Rightarrow> acc
      | Some e \<Rightarrow>
          if clock st - change_time e < gracePeriod then acc
          else
            (case acquire st d u Exclusive of
               Busy \<Rightarrow> acc
             | NoSuchDirectory \<Rightarrow> acc
             | LockHandle st1 \<Rightarrow> (remove_tree st1 d u, snd acc @ [u])))"

definition sweep_pass :: "int \<Rightarrow> location \<Rightarrow> pods \<Rightarrow> pods \<times> uuid list" where
  "sweep_pass gracePeriod d st = foldl (sweep_one gracePeriod d) (st, []) (readdir st d)"

text \<open>
  Modelled from the spec: the default grace period, 30 minutes, in seconds; and an
  invocation of the sweep of \<open>exited-garbage/\<close> at a given time.
\<close>

definition defaultGracePeriod :: int where
  "defaultGracePeriod = 30 * 60"

definition sweep_exited_at :: "int \<Rightarrow> pods \<Rightarrow> int \<Rightarrow> pods" where
  "sweep_exited_at gracePeriod st t =
     fst (sweep_pass gracePeriod ExitedGarbageDir (st\<lparr>clock := t\<rparr>))"

text \<open>
  A concrete state for running the passes: a running and an exited pod in \<open>run/\<close>;
  in \<open>exited-garbage/\<close> a pod marked an hour ago, one marked ten minutes ago, and
  one marked an hour ago that a status query holds a shared lock on.
\<close>

definition example_pods :: pods where
  "example_pods =
     \<lparr>dirs = (\<lambda>d. case d of
          RunDir \<Rightarrow>
            [(''live'', \<lparr>lock = HeldExclusive, change_time = 100, metadata = [''pod'']\<rparr>),
             (''exited'', \<lparr>lock = Free, change_time = 200, metadata = [''pod'']\<rparr>)]
        | ExitedGarbageDir \<Rightarrow>
            [(''old'', \<lparr>lock = Free, change_time = 0, metadata = [''pod'']\<rparr>),
             (''young'', \<lparr>lock = Free, change_time = 3000, metadata = [''pod'']\<rparr>),
             (''watched'', \<lparr>lock = HeldShared 0, change_time = 0, metadata = [''pod'']\<rparr>)]
        | _ \<Rightarrow> []),
      clock = 3600\<rparr>"

text \<open>
  Modelled from the spec: \<open>prepareFailed(PrepareRef)\<close> (section 4.2): simply release
  the lock without renaming. The reference is to the pod's directory in \<open>prepare/\<close>,
  whose exclusive lock the caller holds.
\<close>

definition prepareFailed :: "pods \<Rightarrow> uuid \<Rightarrow> pods" where
  "prepareFailed st u = release st PrepareDir u Exclusive"

section \<open>Properties\<close>

lemma lenKey_value: "lenKey = 71"
  by (simp add: lenKey_def lenHashKey_def lenHash_def hashPrefix_def)

lemma minlenKey_value: "minlenKey = 9"
  by (simp add: minlenKey_def hashPrefix_def)

lemma prefix_take_iff:
  assumes "length p \<le> n"
  shows "prefix p (take n xs) = prefix p xs"
proof
  assume "prefix p (take n xs)"
  then show "prefix p xs"
    using take_is_prefix prefix_order.trans by blast
next
  assume "prefix p xs"
  then obtain zs where "xs = p @ zs" by (auto simp: prefix_def)
  then have "take n xs = p @ take (n - length p) zs" using assms by simp
  then show "prefix p (take n xs)" by simp
qed

lemma ResolveKey_trunc: "ResolveKey ds key = ResolveKey ds (take lenKey key)"
proof (cases "length key > lenKey")
  case False
  then show ?thesis by simp
next
  case True
  have p: "prefix hashPrefix (take lenKey key) = prefix hashPrefix key"
    by (rule prefix_take_iff) (simp add: lenKey_def)
  have l: "length (take lenKey key) = lenKey" using True by simp
  have m: "\<not> lenKey < minlenKey" by (simp add: lenKey_value minlenKey_value)
  have k: "\<not> length key < minlenKey" using True m by linarith
  show ?thesis
    unfolding ResolveKey_def HasPrefix_def p l using True m k by (simp add: Let_def)
qed

lemma GetACIInfos_keys:
  "map BlobKey (GetACIInfosWithKeyPrefix rows k) = filter (prefix k) (map BlobKey rows)"
  by (simp add: GetACIInfosWithKeyPrefix_def HasPrefix_def filter_map comp_def)

lemma ResolveKey_cases:
  "ResolveKey ds key =
     (if \<not> prefix hashPrefix key then Inl WrongKeyPrefix
      else if length key < minlenKey then Inl KeyTooShort
      else case db_err ds of
        Some e \<Rightarrow> Inl (RetrievingACIInfos e)
      | None \<Rightarrow>
         (case stored_keys_with_prefix ds (take lenKey key) of
            [] \<Rightarrow> Inl NoKeysFound
          | [b] \<Rightarrow> Inr b
          | _ \<Rightarrow> Inl (AmbiguousKey (take lenKey key))))"
proof -
  let ?k = "take lenKey key"
  have t: "(if length key > lenKey then take lenKey key else key) = ?k" by simp
  have len: "length (GetACIInfosWithKeyPrefix (db_rows ds) ?k) = length (stored_keys_with_prefix ds ?k)"
    unfolding stored_keys_with_prefix_def GetACIInfos_keys [symmetric] by simp
  have hd: "length (GetACIInfosWithKeyPrefix (db_rows ds) ?k) = 1 \<Longrightarrow>
      stored_keys_with_prefix ds ?k = [BlobKey (GetACIInfosWithKeyPrefix (db_rows ds) ?k ! 0)]"
    unfolding stored_keys_with_prefix_def GetACIInfos_keys [symmetric]
    by (cases "GetACIInfosWithKeyPrefix (db_rows ds) ?k") auto
  show ?thesis
    unfolding ResolveKey_def HasPrefix_def t db_Do_def
    using len hd
    by (auto simp: Let_def split: option.splits list.splits)
qed

lemma ResolveKey_rejects:
  "\<not> prefix hashPrefix key \<or> length key < length hashPrefix + 2 \<longrightarrow>
     (\<exists>e. ResolveKey ds key = Inl e)"
  by (simp add: ResolveKey_cases minlenKey_def)

lemma ResolveKey_succeeds_iff:
  "(\<exists>b. ResolveKey ds key = Inr b) \<longleftrightarrow>
     prefix hashPrefix key \<and> minlenKey \<le> length key \<and> db_err ds = None
     \<and> length (stored_keys_with_prefix ds (take lenKey key)) = 1"
  unfolding ResolveKey_cases
  by (cases "db_err ds"; cases "stored_keys_with_prefix ds (take lenKey key)")
     (simp_all add: not_less split: list.splits)

lemma ResolveKey_result:
  "ResolveKey ds key = Inr b \<longrightarrow> stored_keys_with_prefix ds (take lenKey key) = [b]"
  unfolding ResolveKey_cases
  by (cases "db_err ds"; cases "stored_keys_with_prefix ds (take lenKey key)")
     (simp_all add: not_less split: list.splits)

lemma ResolveKey_none:
  "prefix hashPrefix key \<and> minlenKey \<le> length key \<and> db_err ds = None
   \<and> stored_keys_with_prefix ds (take lenKey key) = []
   \<longrightarrow> ResolveKey ds key = Inl NoKeysFound"
  by (simp add: ResolveKey_cases)

lemma ResolveKey_ambiguous:
  "prefix hashPrefix key \<and> minlenKey \<le> length key \<and> db_err ds = None
   \<and> 1 < length (stored_keys_with_prefix ds (take lenKey key))
   \<longrightarrow> ResolveKey ds key = Inl (AmbiguousKey (take lenKey key))"
  unfolding ResolveKey_cases
  by (cases "stored_keys_with_prefix ds (take lenKey key)")
     (simp_all add: not_less split: list.splits)

lemma ResolveKey_db_error:
  "prefix hashPrefix key \<and> minlenKey \<le> length key \<and> db_err ds = Some err
   \<longrightarrow> ResolveKey ds key = Inl (RetrievingACIInfos err)"
  by (simp add: ResolveKey_cases)

subsection \<open>MergeEnvs: the two loops\<close>

lemma Get_absent: "\<not> snd (Environment_Get e n) \<Longrightarrow> Environment_Get e n = ('''', False)"
  by (induction e) auto

lemma Get_Set:
  "Environment_Get (Environment_Set e n v) m = (if m = n then (v, True) else Environment_Get e m)"
  by (induction e) auto

lemma SplitN2_format:
  "key_value_format ev \<Longrightarrow> SplitN2 ev CHR ''='' = [fst (name_value ev), snd (name_value ev)]"
  by (simp add: SplitN2_def key_value_format_def name_value_def)

lemma SplitN2_no_format:
  "\<not> key_value_format ev \<Longrightarrow> SplitN2 ev CHR ''='' = [ev]"
  by (simp add: SplitN2_def key_value_format_def)

lemma MergeEnvs_set_ok:
  "\<forall>ev\<in>set evs. key_value_format ev \<Longrightarrow>
   \<exists>e'. MergeEnvs_set e evs = Inr e' \<and>
     (\<forall>n. Environment_Get e' n =
        (case map_of (rev (map name_value evs)) n of
           Some v \<Rightarrow> (v, True)
         | None \<Rightarrow> Environment_Get e n))"
proof (induction evs arbitrary: e)
  case Nil
  then show ?case by simp
next
  case (Cons ev evs)
  obtain k v where kv: "name_value ev = (k, v)" by (cases "name_value ev")
  from Cons.prems have f: "key_value_format ev" and r: "\<forall>ev\<in>set evs. key_value_format ev"
    by simp_all
  from Cons.IH [OF r, of "Environment_Set e k v"] obtain e' where
    e': "MergeEnvs_set (Environment_Set e k v) evs = Inr e'"
    and g: "\<And>n. Environment_Get e' n =
        (case map_of (rev (map name_value evs)) n of
           Some v \<Rightarrow> (v, True)
         | None \<Rightarrow> Environment_Get (Environment_Set e k v) n)"
    by blast
  have s: "MergeEnvs_set e (ev # evs) = Inr e'"
    using e' by (simp add: SplitN2_format [OF f] kv index_def)
  have "Environment_Get e' n =
        (case map_of (rev (map name_value (ev # evs))) n of
           Some v \<Rightarrow> (v, True)
         | None \<Rightarrow> Environment_Get e n)" for n
    unfolding g [of n] by (simp add: kv Get_Set map_add_def split: option.splits)
  with s show ?case by blast
qed

lemma MergeEnvs_set_panics:
  "\<exists>ev\<in>set evs. \<not> key_value_format ev \<Longrightarrow> MergeEnvs_set e evs = Inl IndexOutOfRange"
proof (induction evs arbitrary: e)
  case Nil
  then show ?case by simp
next
  case (Cons ev evs)
  show ?case
  proof (cases "key_value_format ev")
    case True
    with Cons.prems have "\<exists>ev\<in>set evs. \<not> key_value_format ev" by auto
    then show ?thesis using Cons.IH by (simp add: SplitN2_format [OF True] index_def)
  next
    case False
    then show ?thesis by (simp add: SplitN2_no_format index_def)
  qed
qed

lemma MergeEnvs_inherit_ok:
  "\<forall>ev\<in>set evs. key_value_format ev \<Longrightarrow>
   \<exists>e'. MergeEnvs_inherit e evs = Inr e' \<and>
     (\<forall>n. Environment_Get e' n =
        (if snd (Environment_Get e n) then Environment_Get e n
         else case map_of (map name_value evs) n of
           Some v \<Rightarrow> (v, True)
         | None \<Rightarrow> ('''', False)))"
proof (induction evs arbitrary: e)
  case Nil
  then show ?case by (simp add: Get_absent)
next
  case (Cons ev evs)
  obtain k v where kv: "name_value ev = (k, v)" by (cases "name_value ev")
  from Cons.prems have f: "key_value_format ev" and r: "\<forall>ev\<in>set evs. key_value_format ev"
    by simp_all
  show ?case
  proof (cases "snd (Environment_Get e k)")
    case True
    from Cons.IH [OF r, of e] obtain e' where
      e': "MergeEnvs_inherit e evs = Inr e'"
      and g: "\<And>n. Environment_Get e' n =
        (if snd (Environment_Get e n) then Environment_Get e n
         else case map_of (map name_value evs) n of
           Some v \<Rightarrow> (v, True)
         | None \<Rightarrow> ('''', False))"
      by blast
    have s: "MergeEnvs_inherit e (ev # evs) = Inr e'"
      using e' True by (simp add: SplitN2_format [OF f] kv index_def)
    have "Environment_Get e' n =
        (if snd (Environment_Get e n) then Environment_Get e n
         else case map_of (map name_value (ev # evs)) n of
           Some v \<Rightarrow> (v, True)
         | None \<Rightarrow> ('''', False))" for n
      unfolding g [of n] using True by (auto simp: kv)
    with s show ?thesis by blast
  next
    case False
    from Cons.IH [OF r, of "Environment_Set e k v"] obtain e' where
      e': "MergeEnvs_inherit (Environment_Set e k v) evs = Inr e'"
      and g: "\<And>n. Environment_Get e' n =
        (if snd (Environment_Get (Environment_Set e k v) n)
         then Environment_Get (Environment_Set e k v) n
         else case map_of (map name_value evs) n of
           Some v \<Rightarrow> (v, True)
         | None \<Rightarrow> ('''', False))"
      by blast
    have s: "MergeEnvs_inherit e (ev # evs) = Inr e'"
      using e' False by (simp add: SplitN2_format [OF f] kv index_def)
    have "Environment_Get e' n =
        (if snd (Environment_Get e n) then Environment_Get e n
         else case map_of (map name_value (ev # evs)) n of
           Some v \<Rightarrow> (v, True)
         | None \<Rightarrow> ('''', False))" for n
      unfolding g [of n] using False by (auto simp: kv Get_Set)
    with s show ?thesis by blast
  qed
qed

subsection \<open>Prepare: the steps of a call that returns\<close>

lemma Prepare_image_Return:
  assumes "Prepare_image c h cfg dir p i img apps = Return apps'"
  shows "\<exists>a. apps' = apps @ [a] \<and> ri_ID (ra_Image a) = img"
  using assms unfolding Prepare_image_def
  by (auto simp: Let_def split: sum.splits option.splits if_splits)

lemma Prepare_images_Return:
  "Prepare_images c h cfg dir p i imgs apps = Return apps' \<Longrightarrow>
   map (\<lambda>a. ri_ID (ra_Image a)) apps' = map (\<lambda>a. ri_ID (ra_Image a)) apps @ imgs"
proof (induction imgs arbitrary: i apps)
  case Nil
  then show ?case by simp
next
  case (Cons img imgs)
  from Cons.prems obtain apps1 where
    s: "Prepare_image c h cfg dir p i img apps = Return apps1"
    and r: "Prepare_images c h cfg dir p (Suc i) imgs apps1 = Return apps'"
    by (auto split: outcome.splits)
  from Prepare_image_Return [OF s] obtain a where
    a: "apps1 = apps @ [a]" "ri_ID (ra_Image a) = img" by blast
  from Cons.IH [OF r] a show ?case by simp
qed

lemma Prepare_Return:
  assumes "Prepare c h cfg dir uuid p = Return p'"
  shows "\<exists>v apps cdoc p1 p2.
     prepareStage1Image c h (Stage1Image cfg) dir (UseOverlay cfg) = None
     \<and> NewSemVer h (Version c) = Inr v
     \<and> Prepare_images c h cfg dir p 0 (Images cfg) [] = Return apps
     \<and> Marshal_PodManifest h \<lparr>ACKind = ''PodManifest'', ACVersion = v, Apps = apps,
                              pm_Volumes = Volumes cfg\<rparr> = Inr cdoc
     \<and> WriteFile h (PodManifestPath c dir) cdoc p = Inr p1
     \<and> WriteFile h (Join dir (Stage1IDFilename c)) (Stage1Image cfg) p1 = Inr p2
     \<and> (if UseOverlay cfg then Create h (Join dir (OverlayPreparedFilename c)) p2 = Inr p'
         else p' = p2)"
  using assms unfolding Prepare_def
  by (simp add: Let_def split: option.splits sum.splits outcome.splits if_splits)

lemma WriteFile_Inr:
  "WriteFile h fn data p = Inr p' \<Longrightarrow> p' = p\<lparr>files := (files p)(fn \<mapsto> data)\<rparr>"
  by (auto simp: WriteFile_def split: option.splits)

lemma Create_Inr:
  "Create h fn p = Inr p' \<Longrightarrow> p' = p\<lparr>files := (files p)(fn \<mapsto> [])\<rparr>"
  by (auto simp: Create_def split: option.splits)

subsection \<open>Run: decimal numbers, the environment block and the steps before exec\<close>

lemma digit_value_digit_char: "d < 10 \<Longrightarrow> digit_value (digit_char d) = d"
  by (simp add: digit_value_def digit_char_def)

lemma digit_char_not_minus: "d < 10 \<Longrightarrow> digit_char d \<noteq> CHR ''-''"
proof
  assume d: "d < 10" and e: "digit_char d = CHR ''-''"
  from e have "(of_char (digit_char d) :: nat) = of_char CHR ''-''" by simp
  with d show False by (simp add: digit_char_def)
qed

lemma dec_value_snoc: "dec_value (s @ [ch]) = 10 * dec_value s + digit_value ch"
  by (simp add: dec_value_def)

lemma dec_value_nat_dec: "dec_value (nat_dec n) = n"
proof (induction n rule: nat_dec.induct)
  case (1 n)
  show ?case
  proof (cases "n < 10")
    case True
    then show ?thesis
      by (simp add: nat_dec.simps [of n] dec_value_def digit_value_digit_char)
  next
    case False
    with 1 have "dec_value (nat_dec (n div 10)) = n div 10" by simp
    with False show ?thesis
      by (simp add: nat_dec.simps [of n] dec_value_snoc digit_value_digit_char)
  qed
qed

lemma nat_dec_head: "\<exists>d r. d < 10 \<and> nat_dec n = digit_char d # r"
proof (induction n rule: nat_dec.induct)
  case (1 n)
  show ?case
  proof (cases "n < 10")
    case True
    then show ?thesis by (auto simp: nat_dec.simps [of n])
  next
    case False
    with 1 obtain d r where "d < 10" "nat_dec (n div 10) = digit_char d # r" by blast
    with False show ?thesis by (auto simp: nat_dec.simps [of n])
  qed
qed

lemma Atoi_Sprintf_v: "Atoi (Sprintf_v i) = i"
proof (cases "i < 0")
  case True
  then show ?thesis by (simp add: Atoi_def Sprintf_v_def dec_value_nat_dec)
next
  case False
  obtain d r where d: "d < 10" "nat_dec (nat i) = digit_char d # r"
    using nat_dec_head by blast
  have "dec_value (digit_char d # r) = nat i"
    using dec_value_nat_dec [of "nat i"] d by simp
  with False d show ?thesis
    by (simp add: Atoi_def Sprintf_v_def digit_char_not_minus)
qed

lemma takeWhile_kv:
  "CHR ''='' \<notin> set key \<Longrightarrow> takeWhile (\<lambda>c. c \<noteq> CHR ''='') (key @ ''='' @ val) = key"
  by (induction key) auto

lemma dropWhile_kv:
  "CHR ''='' \<notin> set key \<Longrightarrow>
   dropWhile (\<lambda>c. c \<noteq> CHR ''='') (key @ ''='' @ val) = ''='' @ val"
  by (induction key) auto

lemma entry_name_kv:
  "CHR ''='' \<notin> set key \<Longrightarrow> entry_name (key @ ''='' @ val) = Some key"
  unfolding entry_name_def using takeWhile_kv [of key val] by simp

lemma entry_value_kv:
  "CHR ''='' \<notin> set key \<Longrightarrow> tl (dropWhile (\<lambda>c. c \<noteq> CHR ''='') (key @ ''='' @ val)) = val"
  using dropWhile_kv [of key val] by simp

lemma Getenv_set_entry:
  "CHR ''='' \<notin> set key \<Longrightarrow> Getenv (set_entry es key (key @ ''='' @ val)) key = Some val"
  using entry_name_kv [of key val] entry_value_kv [of key val]
  by (induction es) simp_all

lemma Getenv_set_entry_other:
  "CHR ''='' \<notin> set key \<Longrightarrow> k \<noteq> key \<Longrightarrow>
   Getenv (set_entry es key (key @ ''='' @ val)) k = Getenv es k"
  using entry_name_kv [of key val]
  by (induction es) simp_all

lemma Setenv_Inr:
  "Setenv key val p = Inr p' \<Longrightarrow>
   CHR ''='' \<notin> set key \<and> p' = p\<lparr>envs := set_entry (envs p) key (key @ ''='' @ val)\<rparr>"
  by (auto simp: Setenv_def split: if_splits)

lemma CloseOnExec_Inr:
  "CloseOnExec fd on p = Inr p' \<Longrightarrow> fd \<in> dom (fds p) \<and> p' = p\<lparr>fds := (fds p)(fd \<mapsto> on)\<rparr>"
  by (auto simp: CloseOnExec_def split: if_splits)

lemma Run_Execed:
  assumes "Run c h cfg dir p = Execed path args envv open"
  shows "\<exists>p2 p3 p4 ep.
      Run_setup c h cfg dir p = Inr p2
    \<and> Setenv (EnvLockFd c) (Sprintf_v (LockFd cfg)) p2 = Inr p3
    \<and> getStage1Entrypoint c h dir runEntrypoint p3 = Inr ep
    \<and> CloseOnExec (LockFd cfg) False p3 = Inr p4
    \<and> path = Join (Stage1RootfsPath c dir) ep
    \<and> hd args = path \<and> last args = UUID cfg
    \<and> envv = envs p4 \<and> open = inherited_fds p4"
  using assms unfolding Run_def
  by (auto simp: Let_def syscall_Exec_def Environ_def
      split: sum.splits option.splits if_splits)

subsection \<open>The collector: single steps and whole passes\<close>

lemma lookup_put:
  "lookup (put st d u e) d' u' = (if d' = d \<and> u' = u then Some e else lookup st d' u')"
  by (simp add: lookup_def put_def update_conv')

lemma lookup_remove_tree:
  "lookup (remove_tree st d u) d' u' = (if d' = d \<and> u' = u then None else lookup st d' u')"
  by (simp add: lookup_def remove_tree_def delete_conv')

lemma clock_put: "clock (put st d u e) = clock st"
  by (simp add: put_def)

lemma clock_remove_tree: "clock (remove_tree st d u) = clock st"
  by (simp add: remove_tree_def)

lemma readdir_lookup: "u \<in> set (readdir st d) \<longleftrightarrow> lookup st d u \<noteq> None"
  by (simp add: readdir_def lookup_def map_of_eq_None_iff)

lemma try_lock_Shared_None: "try_lock Shared l = None \<longleftrightarrow> l = HeldExclusive"
  by (cases l) simp_all

lemma unlock_try_lock_Shared: "try_lock Shared l = Some l' \<Longrightarrow> unlock Shared l' = l"
  by (cases l) auto

lemma try_lock_Exclusive_Some: "try_lock Exclusive l = Some l' \<longleftrightarrow> l = Free \<and> l' = HeldExclusive"
  by (cases l) auto

text \<open>What one step of the mark pass does to the directories, seen through lookup.\<close>

lemma mark_one_other:
  "u' \<noteq> u \<Longrightarrow> lookup (mark_one src dst st u) d u' = lookup st d u'"
  by (auto simp: mark_one_def acquire_def rename_def release_def lookup_put lookup_remove_tree
      split: option.splits acquired.splits renamed.splits)

lemma mark_one_clock: "clock (mark_one src dst st u) = clock st"
  by (auto simp: mark_one_def acquire_def rename_def release_def clock_put clock_remove_tree
      lookup_put lookup_remove_tree
      split: option.splits acquired.splits renamed.splits)

lemma mark_one_busy:
  "lookup st src u = Some e \<Longrightarrow> lock e = HeldExclusive \<Longrightarrow> mark_one src dst st u = st"
  by (simp add: mark_one_def acquire_def)

lemma mark_one_absent:
  "lookup st src u = None \<Longrightarrow> mark_one src dst st u = st"
  by (simp add: mark_one_def acquire_def)

lemma mark_one_moves:
  assumes "lookup st src u = Some e" "lock e \<noteq> HeldExclusive" "lookup st dst u = None"
    "src \<noteq> dst"
  shows "lookup (mark_one src dst st u) src u = None
       \<and> lookup (mark_one src dst st u) dst u = Some (e\<lparr>change_time := clock st\<rparr>)"
proof -
  from assms(2) obtain l where l: "try_lock Shared (lock e) = Some l"
    by (cases "try_lock Shared (lock e)") (simp_all add: try_lock_Shared_None)
  have u: "unlock Shared l = lock e" using unlock_try_lock_Shared [OF l] .
  show ?thesis
    using assms l u
    by (simp add: mark_one_def acquire_def rename_def release_def lookup_put
        lookup_remove_tree clock_put)
qed

lemma mark_one_other_dir:
  "d \<noteq> src \<Longrightarrow> d \<noteq> dst \<Longrightarrow> lookup (mark_one src dst st u) d u' = lookup st d u'"
  by (auto simp: mark_one_def acquire_def rename_def release_def lookup_put lookup_remove_tree
      split: option.splits acquired.splits renamed.splits)

lemma mark_list_live:
  "lookup st src u = Some e \<Longrightarrow> lock e = HeldExclusive \<Longrightarrow>
   lookup (foldl (mark_one src dst) st us) d u = lookup st d u"
proof (induction us arbitrary: st)
  case Nil
  then show ?case by simp
next
  case (Cons x xs)
  show ?case
  proof (cases "x = u")
    case True
    with Cons.prems have "mark_one src dst st x = st" by (simp add: mark_one_busy)
    with Cons show ?thesis by simp
  next
    case False
    then have o: "\<And>d'. lookup (mark_one src dst st x) d' u = lookup st d' u"
      by (simp add: mark_one_other)
    from Cons.IH [of "mark_one src dst st x"] Cons.prems o show ?thesis by simp
  qed
qed

lemma mark_list_absent:
  "lookup st src u = None \<Longrightarrow>
   lookup (foldl (mark_one src dst) st us) d u = lookup st d u"
proof (induction us arbitrary: st)
  case Nil
  then show ?case by simp
next
  case (Cons x xs)
  show ?case
  proof (cases "x = u")
    case True
    with Cons.prems have "mark_one src dst st x = st" by (simp add: mark_one_absent)
    with Cons show ?thesis by simp
  next
    case False
    then have o: "\<And>d'. lookup (mark_one src dst st x) d' u = lookup st d' u"
      by (simp add: mark_one_other)
    from Cons.IH [of "mark_one src dst st x"] Cons.prems o show ?thesis by simp
  qed
qed

lemma mark_list_clock: "clock (foldl (mark_one src dst) st us) = clock st"
  by (induction us arbitrary: st) (simp_all add: mark_one_clock)

lemma mark_list_moves:
  "u \<in> set us \<Longrightarrow> lookup st src u = Some e \<Longrightarrow> lock e \<noteq> HeldExclusive \<Longrightarrow>
   lookup st dst u = None \<Longrightarrow> src \<noteq> dst \<Longrightarrow>
   lookup (foldl (mark_one src dst) st us) src u = None
   \<and> lookup (foldl (mark_one src dst) st us) dst u = Some (e\<lparr>change_time := clock st\<rparr>)"
proof (induction us arbitrary: st)
  case Nil
  then show ?case by simp
next
  case (Cons x xs)
  show ?case
  proof (cases "x = u")
    case True
    from mark_one_moves [OF Cons.prems(2) Cons.prems(3) Cons.prems(4) Cons.prems(5)]
    have m: "lookup (mark_one src dst st u) src u = None"
      "lookup (mark_one src dst st u) dst u = Some (e\<lparr>change_time := clock st\<rparr>)"
      by simp_all
    from mark_list_absent [OF m(1), of dst xs] m True show ?thesis by simp
  next
    case False
    with Cons.prems(1) have i: "u \<in> set xs" by simp
    from False have o: "\<And>d'. lookup (mark_one src dst st x) d' u = lookup st d' u"
      by (simp add: mark_one_other)
    from Cons.IH [of "mark_one src dst st x", OF i] Cons.prems o
    show ?thesis by (simp add: mark_one_clock)
  qed
qed

lemma acquire_Shared_Busy:
  "lookup st d u = Some e \<Longrightarrow> acquire st d u Shared = Busy \<longleftrightarrow> lock e = HeldExclusive"
  by (cases "lock e") (simp_all add: acquire_def)


text \<open>One step of the sweep pass.\<close>

lemma sweep_one_other:
  "u' \<noteq> u \<Longrightarrow> lookup (fst (sweep_one g d acc u)) d' u' = lookup (fst acc) d' u'"
  by (auto simp: sweep_one_def acquire_def lookup_put lookup_remove_tree Let_def
      split: option.splits acquired.splits)

lemma sweep_one_other_log:
  "u' \<noteq> u \<Longrightarrow> count_list (snd (sweep_one g d acc u)) u' = count_list (snd acc) u'"
  by (auto simp: sweep_one_def acquire_def Let_def split: option.splits acquired.splits)

lemma sweep_one_clock: "clock (fst (sweep_one g d acc u)) = clock (fst acc)"
  by (auto simp: sweep_one_def acquire_def clock_put clock_remove_tree Let_def
      split: option.splits acquired.splits)

lemma sweep_one_absent: "lookup (fst acc) d u = None \<Longrightarrow> sweep_one g d acc u = acc"
  by (simp add: sweep_one_def Let_def)

lemma sweep_one_young:
  "lookup (fst acc) d u = Some e \<Longrightarrow> clock (fst acc) - change_time e < g \<Longrightarrow>
   sweep_one g d acc u = acc"
  by (simp add: sweep_one_def Let_def)

lemma sweep_one_busy:
  "lookup (fst acc) d u = Some e \<Longrightarrow> lock e \<noteq> Free \<Longrightarrow> sweep_one g d acc u = acc"
  by (cases "lock e") (simp_all add: sweep_one_def acquire_def Let_def)

lemma sweep_one_deletes:
  "lookup (fst acc) d u = Some e \<Longrightarrow> \<not> clock (fst acc) - change_time e < g \<Longrightarrow>
   lock e = Free \<Longrightarrow>
   lookup (fst (sweep_one g d acc u)) d u = None \<and> snd (sweep_one g d acc u) = snd acc @ [u]"
  by (simp add: sweep_one_def acquire_def lookup_remove_tree Let_def)

lemma sweep_list_keeps:
  "lookup (fst acc) d u = Some e \<Longrightarrow> clock (fst acc) - change_time e < g \<or> lock e \<noteq> Free \<Longrightarrow>
   lookup (fst (foldl (sweep_one g d) acc us)) d u = Some e
   \<and> count_list (snd (foldl (sweep_one g d) acc us)) u = count_list (snd acc) u"
proof (induction us arbitrary: acc)
  case Nil
  then show ?case by simp
next
  case (Cons x xs)
  show ?case
  proof (cases "x = u")
    case True
    from Cons.prems have "sweep_one g d acc u = acc"
      using sweep_one_young sweep_one_busy by blast
    with Cons True show ?thesis by simp
  next
    case False
    then have "lookup (fst (sweep_one g d acc x)) d u = lookup (fst acc) d u"
      "count_list (snd (sweep_one g d acc x)) u = count_list (snd acc) u"
      by (simp_all add: sweep_one_other sweep_one_other_log)
    with Cons.IH [of "sweep_one g d acc x"] Cons.prems show ?thesis
      by (simp add: sweep_one_clock)
  qed
qed

lemma sweep_list_absent:
  "lookup (fst acc) d u = None \<Longrightarrow>
   lookup (fst (foldl (sweep_one g d) acc us)) d u = None
   \<and> count_list (snd (foldl (sweep_one g d) acc us)) u = count_list (snd acc) u"
proof (induction us arbitrary: acc)
  case Nil
  then show ?case by simp
next
  case (Cons x xs)
  show ?case
  proof (cases "x = u")
    case True
    from Cons.prems have "sweep_one g d acc u = acc" by (rule sweep_one_absent)
    with Cons True show ?thesis by simp
  next
    case False
    then have "lookup (fst (sweep_one g d acc x)) d u = lookup (fst acc) d u"
      "count_list (snd (sweep_one g d acc x)) u = count_list (snd acc) u"
      by (simp_all add: sweep_one_other sweep_one_other_log)
    with Cons.IH [of "sweep_one g d acc x"] Cons.prems show ?thesis by simp
  qed
qed

lemma sweep_list_deletes:
  "u \<in> set us \<Longrightarrow> lookup (fst acc) d u = Some e \<Longrightarrow>
   \<not> clock (fst acc) - change_time e < g \<Longrightarrow> lock e = Free \<Longrightarrow>
   lookup (fst (foldl (sweep_one g d) acc us)) d u = None
   \<and> count_list (snd (foldl (sweep_one g d) acc us)) u = count_list (snd acc) u + 1"
proof (induction us arbitrary: acc)
  case Nil
  then show ?case by simp
next
  case (Cons x xs)
  show ?case
  proof (cases "x = u")
    case True
    from sweep_one_deletes [OF Cons.prems(2) Cons.prems(3) Cons.prems(4)]
    have m: "lookup (fst (sweep_one g d acc u)) d u = None"
      "snd (sweep_one g d acc u) = snd acc @ [u]" by simp_all
    from sweep_list_absent [OF m(1), where us = xs and g = g] m True show ?thesis by simp
  next
    case False
    with Cons.prems(1) have i: "u \<in> set xs" by simp
    from False have "lookup (fst (sweep_one g d acc x)) d u = lookup (fst acc) d u"
      "count_list (snd (sweep_one g d acc x)) u = count_list (snd acc) u"
      by (simp_all add: sweep_one_other sweep_one_other_log)
    with Cons.IH [of "sweep_one g d acc x", OF i] Cons.prems show ?thesis
      by (simp add: sweep_one_clock)
  qed
qed

lemma lookup_clock_update: "lookup (st\<lparr>clock := t\<rparr>) d u = lookup st d u"
  by (simp add: lookup_def)

lemma sweep_exited_at_keeps:
  "lookup st ExitedGarbageDir u = Some e \<Longrightarrow> t - change_time e < g \<Longrightarrow>
   lookup (sweep_exited_at g st t) ExitedGarbageDir u = Some e"
  unfolding sweep_exited_at_def sweep_pass_def
  using sweep_list_keeps [of "(st\<lparr>clock := t\<rparr>, [])" ExitedGarbageDir u e g]
  by (simp add: lookup_clock_update)

lemma sweeps_keep:
  "lookup st ExitedGarbageDir u = Some e \<Longrightarrow> \<forall>t\<in>set ts. t - change_time e < g \<Longrightarrow>
   lookup (foldl (sweep_exited_at g) st ts) ExitedGarbageDir u = Some e"
proof (induction ts arbitrary: st)
  case Nil
  then show ?case by simp
next
  case (Cons t ts)
  from Cons.prems have "lookup (sweep_exited_at g st t) ExitedGarbageDir u = Some e"
    by (simp add: sweep_exited_at_keeps)
  with Cons.IH [of "sweep_exited_at g st t"] Cons.prems show ?case by simp
qed

lemma acquire_Exclusive_Busy:
  "lookup st d u = Some e \<Longrightarrow> acquire st d u Exclusive = Busy \<longleftrightarrow> lock e \<noteq> Free"
  by (cases "lock e") (simp_all add: acquire_def)

lemma readdir_put_present:
  "lookup st d u \<noteq> None \<Longrightarrow> readdir (put st d u e) d' = readdir st d'"
  by (auto simp: readdir_def put_def lookup_def update_keys map_of_eq_None_iff)


subsection \<open>Claim C10: resolving a partial key\<close>

text \<open>
  Claim C10. \<open>ResolveKey\<close> returns an error for a key that does not start with
  \<open>sha512-\<close> or is shorter than nine characters; a key longer than 71 characters is cut
  to its first 71; the call returns a key exactly when the key passes those two checks,
  the database transaction does not fail and exactly one stored blob key starts with the
  (cut) key, and then it returns that stored key; no match, several matches and a failed
  transaction are three different errors.
\<close>

theorem ResolveKey_resolves:
  "(\<not> prefix hashPrefix key \<or> length key < length hashPrefix + 2 \<longrightarrow>
      (\<exists>e. ResolveKey ds key = Inl e))
   \<and> ResolveKey ds key = ResolveKey ds (take lenKey key)
   \<and> ((\<exists>b. ResolveKey ds key = Inr b) \<longleftrightarrow>
        prefix hashPrefix key \<and> minlenKey \<le> length key \<and> db_err ds = None
        \<and> length (stored_keys_with_prefix ds (take lenKey key)) = 1)
   \<and> (ResolveKey ds key = Inr b \<longrightarrow> stored_keys_with_prefix ds (take lenKey key) = [b])
   \<and> (prefix hashPrefix key \<and> minlenKey \<le> length key \<and> db_err ds = None
        \<and> stored_keys_with_prefix ds (take lenKey key) = []
        \<longrightarrow> ResolveKey ds key = Inl NoKeysFound)
   \<and> (prefix hashPrefix key \<and> minlenKey \<le> length key \<and> db_err ds = None
        \<and> 1 < length (stored_keys_with_prefix ds (take lenKey key))
        \<longrightarrow> ResolveKey ds key = Inl (AmbiguousKey (take lenKey key)))
   \<and> (prefix hashPrefix key \<and> minlenKey \<le> length key \<and> db_err ds = Some err
        \<longrightarrow> ResolveKey ds key = Inl (RetrievingACIInfos err))
   \<and> NoKeysFound \<noteq> AmbiguousKey (take lenKey key)
   \<and> RetrievingACIInfos err \<noteq> NoKeysFound
   \<and> RetrievingACIInfos err \<noteq> AmbiguousKey (take lenKey key)"
  apply (intro conjI)
           apply (rule ResolveKey_rejects)
          apply (rule ResolveKey_trunc)
         apply (rule ResolveKey_succeeds_iff)
        apply (rule ResolveKey_result)
       apply (rule ResolveKey_none)
      apply (rule ResolveKey_ambiguous)
     apply (rule ResolveKey_db_error)
    apply simp_all
  done

text \<open>
  The theorem at a store of two rows: \<open>sha512-ab\<close> resolves to the one key that starts
  with it, and the eight characters \<open>sha512-a\<close> are refused.
\<close>

theorem ResolveKey_resolves_witness:
  "ResolveKey
     \<lparr>db_rows = [\<lparr>BlobKey = ''sha512-abcd'', AppName = ''a'', Latest = False\<rparr>,
                 \<lparr>BlobKey = ''sha512-ffff'', AppName = ''b'', Latest = True\<rparr>],
      db_err = None\<rparr> ''sha512-ab'' = Inr ''sha512-abcd''
   \<and> (\<exists>e. ResolveKey
     \<lparr>db_rows = [\<lparr>BlobKey = ''sha512-abcd'', AppName = ''a'', Latest = False\<rparr>,
                 \<lparr>BlobKey = ''sha512-ffff'', AppName = ''b'', Latest = True\<rparr>],
      db_err = None\<rparr> ''sha512-a'' = Inl e)"
proof -
  let ?ds = "\<lparr>db_rows = [\<lparr>BlobKey = ''sha512-abcd'', AppName = ''a'', Latest = False\<rparr>,
                 \<lparr>BlobKey = ''sha512-ffff'', AppName = ''b'', Latest = True\<rparr>],
      db_err = None\<rparr>"
  have s: "stored_keys_with_prefix ?ds (take lenKey ''sha512-ab'') = [''sha512-abcd'']"
    by (simp add: stored_keys_with_prefix_def lenKey_value)
  have w: "prefix hashPrefix ''sha512-ab'' \<and> minlenKey \<le> length ''sha512-ab''"
    by (simp add: hashPrefix_def minlenKey_value)
  have d: "db_err ?ds = None" by simp
  have l: "length (stored_keys_with_prefix ?ds (take lenKey ''sha512-ab'')) = 1"
    unfolding s by simp
  have "\<exists>b. ResolveKey ?ds ''sha512-ab'' = Inr b"
    using ResolveKey_resolves [of "''sha512-ab''" ?ds] w d l by blast
  then obtain b where b: "ResolveKey ?ds ''sha512-ab'' = Inr b" ..
  have "stored_keys_with_prefix ?ds (take lenKey ''sha512-ab'') = [b]"
    using ResolveKey_resolves [of "''sha512-ab''" ?ds b] b by blast
  then have e: "b = ''sha512-abcd''" unfolding s by simp
  have n: "length ''sha512-a'' < length hashPrefix + 2" by (simp add: hashPrefix_def)
  have "\<exists>e. ResolveKey ?ds ''sha512-a'' = Inl e"
    using ResolveKey_resolves [of "''sha512-a''" ?ds] n by blast
  then show ?thesis using b e by blast
qed

text \<open>
  The claim as stated (success exactly when one stored key matches) fails on a store
  whose transaction fails: one stored key matches, and the call returns the
  transaction's error.
\<close>

theorem ResolveKey_iff_counterexample:
  "length (stored_keys_with_prefix
     \<lparr>db_rows = [\<lparr>BlobKey = ''sha512-abcd'', AppName = ''a'', Latest = False\<rparr>],
      db_err = Some ''database is closed''\<rparr> (take lenKey ''sha512-ab'')) = 1
   \<and> ResolveKey
     \<lparr>db_rows = [\<lparr>BlobKey = ''sha512-abcd'', AppName = ''a'', Latest = False\<rparr>],
      db_err = Some ''database is closed''\<rparr> ''sha512-ab''
     = Inl (RetrievingACIInfos ''database is closed'')"
  by (simp add: stored_keys_with_prefix_def lenKey_value ResolveKey_def HasPrefix_def
      hashPrefix_def minlenKey_def db_Do_def)

subsection \<open>Claim C9: what MergeEnvs leaves in the app's environment\<close>

text \<open>
  Claim C9. When every entry of \<open>setEnv\<close> holds an \<open>=\<close> (and, with \<open>inheritEnv\<close>,
  every entry of the process environment does), \<open>MergeEnvs\<close> returns, and afterwards the
  value of a name is: the value of its last entry in \<open>setEnv\<close> when it has one;
  otherwise the value the app's environment already had; otherwise, only with
  \<open>inheritEnv\<close>, the value of its first entry in the process environment; otherwise the
  name is unset. An entry of \<open>setEnv\<close> without \<open>=\<close> makes the call panic. Without
  \<open>inheritEnv\<close> the process environment plays no part.
\<close>

theorem MergeEnvs_merges:
  "((\<forall>ev\<in>set setEnv. key_value_format ev) \<and>
    (inheritEnv \<longrightarrow> (\<forall>ev\<in>set environ. key_value_format ev)) \<longrightarrow>
      (\<exists>env'. MergeEnvs appEnv inheritEnv setEnv environ = Inr env' \<and>
         (\<forall>n. Environment_Get env' n =
            (case map_of (rev (map name_value setEnv)) n of
               Some v \<Rightarrow> (v, True)
             | None \<Rightarrow>
                 if snd (Environment_Get appEnv n) then Environment_Get appEnv n
                 else if inheritEnv then
                   (case map_of (map name_value environ) n of
                      Some v \<Rightarrow> (v, True)
                    | None \<Rightarrow> ('''', False))
                 else ('''', False)))))
   \<and> ((\<exists>ev\<in>set setEnv. \<not> key_value_format ev) \<longrightarrow>
        MergeEnvs appEnv inheritEnv setEnv environ = Inl IndexOutOfRange)
   \<and> MergeEnvs appEnv False setEnv environ = MergeEnvs appEnv False setEnv []"
proof (intro conjI impI)
  assume a: "(\<forall>ev\<in>set setEnv. key_value_format ev) \<and>
    (inheritEnv \<longrightarrow> (\<forall>ev\<in>set environ. key_value_format ev))"
  then have fs: "\<forall>ev\<in>set setEnv. key_value_format ev" by simp
  from MergeEnvs_set_ok [OF fs, of appEnv] obtain e1 where
    e1: "MergeEnvs_set appEnv setEnv = Inr e1"
    and g1: "\<And>n. Environment_Get e1 n =
        (case map_of (rev (map name_value setEnv)) n of
           Some v \<Rightarrow> (v, True)
         | None \<Rightarrow> Environment_Get appEnv n)"
    by blast
  show "\<exists>env'. MergeEnvs appEnv inheritEnv setEnv environ = Inr env' \<and>
         (\<forall>n. Environment_Get env' n =
            (case map_of (rev (map name_value setEnv)) n of
               Some v \<Rightarrow> (v, True)
             | None \<Rightarrow>
                 if snd (Environment_Get appEnv n) then Environment_Get appEnv n
                 else if inheritEnv then
                   (case map_of (map name_value environ) n of
                      Some v \<Rightarrow> (v, True)
                    | None \<Rightarrow> ('''', False))
                 else ('''', False)))"
  proof (cases inheritEnv)
    case False
    have "MergeEnvs appEnv inheritEnv setEnv environ = Inr e1"
      using e1 False by (simp add: MergeEnvs_def)
    moreover have "Environment_Get e1 n =
            (case map_of (rev (map name_value setEnv)) n of
               Some v \<Rightarrow> (v, True)
             | None \<Rightarrow>
                 if snd (Environment_Get appEnv n) then Environment_Get appEnv n
                 else if inheritEnv then
                   (case map_of (map name_value environ) n of
                      Some v \<Rightarrow> (v, True)
                    | None \<Rightarrow> ('''', False))
                 else ('''', False))" for n
      unfolding g1 [of n] using False by (simp add: Get_absent split: option.splits)
    ultimately show ?thesis by blast
  next
    case True
    with a have fe: "\<forall>ev\<in>set environ. key_value_format ev" by simp
    from MergeEnvs_inherit_ok [OF fe, of e1] obtain e2 where
      e2: "MergeEnvs_inherit e1 environ = Inr e2"
      and g2: "\<And>n. Environment_Get e2 n =
        (if snd (Environment_Get e1 n) then Environment_Get e1 n
         else case map_of (map name_value environ) n of
           Some v \<Rightarrow> (v, True)
         | None \<Rightarrow> ('''', False))"
      by blast
    have "MergeEnvs appEnv inheritEnv setEnv environ = Inr e2"
      using e1 e2 True by (simp add: MergeEnvs_def)
    moreover have "Environment_Get e2 n =
            (case map_of (rev (map name_value setEnv)) n of
               Some v \<Rightarrow> (v, True)
             | None \<Rightarrow>
                 if snd (Environment_Get appEnv n) then Environment_Get appEnv n
                 else if inheritEnv then
                   (case map_of (map name_value environ) n of
                      Some v \<Rightarrow> (v, True)
                    | None \<Rightarrow> ('''', False))
                 else ('''', False))" for n
      unfolding g2 [of n] g1 [of n] using True by (simp split: option.splits)
    ultimately show ?thesis by blast
  qed
next
  assume "\<exists>ev\<in>set setEnv. \<not> key_value_format ev"
  then show "MergeEnvs appEnv inheritEnv setEnv environ = Inl IndexOutOfRange"
    by (simp add: MergeEnvs_def MergeEnvs_set_panics)
next
  show "MergeEnvs appEnv False setEnv environ = MergeEnvs appEnv False setEnv []"
    by (simp add: MergeEnvs_def split: sum.splits)
qed

text \<open>
  The theorem at a concrete call: \<open>A\<close> is set twice and inherited, \<open>B\<close> is set to a
  value that holds an \<open>=\<close>, \<open>C\<close> is inherited only, \<open>PATH\<close> was there before.
\<close>

theorem MergeEnvs_merges_witness:
  "\<exists>env'. MergeEnvs [\<lparr>Name = ''PATH'', Value = ''/bin''\<rparr>, \<lparr>Name = ''A'', Value = ''1''\<rparr>] True
            [''A=2'', ''B=x=y'', ''A=3''] [''A=9'', ''B=8'', ''C=7'', ''C=6''] = Inr env'
     \<and> Environment_Get env' ''A'' = (''3'', True)
     \<and> Environment_Get env' ''B'' = (''x=y'', True)
     \<and> Environment_Get env' ''C'' = (''7'', True)
     \<and> Environment_Get env' ''PATH'' = (''/bin'', True)
     \<and> Environment_Get env' ''D'' = ('''', False)"
proof -
  let ?app = "[\<lparr>Name = ''PATH'', Value = ''/bin''\<rparr>, \<lparr>Name = ''A'', Value = ''1''\<rparr>]"
  let ?set = "[''A=2'', ''B=x=y'', ''A=3'']"
  let ?env = "[''A=9'', ''B=8'', ''C=7'', ''C=6'']"
  have h: "(\<forall>ev\<in>set ?set. key_value_format ev) \<and>
    (True \<longrightarrow> (\<forall>ev\<in>set ?env. key_value_format ev))"
    by (simp add: key_value_format_def)
  from MergeEnvs_merges [of ?set True ?env ?app] h obtain env' where
    r: "MergeEnvs ?app True ?set ?env = Inr env'"
    and g: "\<And>n. Environment_Get env' n =
            (case map_of (rev (map name_value ?set)) n of
               Some v \<Rightarrow> (v, True)
             | None \<Rightarrow>
                 if snd (Environment_Get ?app n) then Environment_Get ?app n
                 else if True then
                   (case map_of (map name_value ?env) n of
                      Some v \<Rightarrow> (v, True)
                    | None \<Rightarrow> ('''', False))
                 else ('''', False))"
    by blast
  have "Environment_Get env' ''A'' = (''3'', True)"
    unfolding g by (simp add: name_value_def)
  moreover have "Environment_Get env' ''B'' = (''x=y'', True)"
    unfolding g by (simp add: name_value_def)
  moreover have "Environment_Get env' ''C'' = (''7'', True)"
    unfolding g by (simp add: name_value_def)
  moreover have "Environment_Get env' ''PATH'' = (''/bin'', True)"
    unfolding g by (simp add: name_value_def)
  moreover have "Environment_Get env' ''D'' = ('''', False)"
    unfolding g by (simp add: name_value_def)
  ultimately show ?thesis using r by blast
qed

text \<open>
  The claim quantifies over every call; the call with the single entry \<open>FOO\<close> sets
  nothing and panics on \<open>pair[1]\<close>.
\<close>

theorem MergeEnvs_every_call_counterexample:
  "MergeEnvs [] False [''FOO''] [] = Inl IndexOutOfRange
   \<and> (\<nexists>env'. MergeEnvs [] False [''FOO''] [] = Inr env')"
  by (simp add: MergeEnvs_def SplitN2_def index_def)

subsection \<open>Claim C7: the files Prepare leaves in the pod directory\<close>

text \<open>
  Claim C7. When \<open>Prepare\<close> returns without error, the pod directory holds the pod
  manifest (the marshalled manifest of kind \<open>PodManifest\<close>, one app per image of the
  configuration, with the configuration's volumes) and a file whose content is the
  stage-1 image id; with \<open>UseOverlay\<close> it holds the (empty) overlay marker, and without
  \<open>UseOverlay\<close> the marker path is left as it was, so in a pod directory that had no
  marker before, the marker exists afterwards exactly when \<open>UseOverlay\<close> is set, and
  \<open>preparedWithOverlay\<close> then answers \<open>UseOverlay\<close> on a host with overlay support. The
  three file names are parameters, taken to be different from each other.
\<close>

theorem Prepare_writes_pod_files:
  assumes ret: "Prepare c h cfg dir uuid p = Return p'"
    and dist: "distinct [PodManifestPath c dir, Join dir (Stage1IDFilename c),
                         Join dir (OverlayPreparedFilename c)]"
  shows "(\<exists>cm cdoc. Marshal_PodManifest h cm = Inr cdoc \<and> ACKind cm = ''PodManifest''
            \<and> map (\<lambda>a. ri_ID (ra_Image a)) (Apps cm) = Images cfg
            \<and> pm_Volumes cm = Volumes cfg
            \<and> files p' (PodManifestPath c dir) = Some cdoc)
       \<and> files p' (Join dir (Stage1IDFilename c)) = Some (Stage1Image cfg)
       \<and> (UseOverlay cfg \<longrightarrow> files p' (Join dir (OverlayPreparedFilename c)) = Some [])
       \<and> (\<not> UseOverlay cfg \<longrightarrow>
            files p' (Join dir (OverlayPreparedFilename c))
              = files p (Join dir (OverlayPreparedFilename c)))
       \<and> (Join dir (OverlayPreparedFilename c) \<notin> dom (files p) \<longrightarrow>
            (Join dir (OverlayPreparedFilename c) \<in> dom (files p') \<longleftrightarrow> UseOverlay cfg))
       \<and> (Join dir (OverlayPreparedFilename c) \<notin> dom (files p)
            \<and> Stat_err h (Join dir (OverlayPreparedFilename c)) = None \<and> SupportsOverlay h
          \<longrightarrow> preparedWithOverlay c h dir p' = Inr (UseOverlay cfg))"
proof -
  let ?m = "PodManifestPath c dir"
  let ?s = "Join dir (Stage1IDFilename c)"
  let ?o = "Join dir (OverlayPreparedFilename c)"
  from Prepare_Return [OF ret] obtain v apps cdoc p1 p2 where
    imgs: "Prepare_images c h cfg dir p 0 (Images cfg) [] = Return apps"
    and mar: "Marshal_PodManifest h \<lparr>ACKind = ''PodManifest'', ACVersion = v, Apps = apps,
                              pm_Volumes = Volumes cfg\<rparr> = Inr cdoc"
    and w1: "WriteFile h ?m cdoc p = Inr p1"
    and w2: "WriteFile h ?s (Stage1Image cfg) p1 = Inr p2"
    and w3: "if UseOverlay cfg then Create h ?o p2 = Inr p' else p' = p2"
    by blast
  have p1: "files p1 = (files p)(?m \<mapsto> cdoc)"
    using WriteFile_Inr [OF w1] by simp
  have p2: "files p2 = (files p)(?m \<mapsto> cdoc, ?s \<mapsto> Stage1Image cfg)"
    using WriteFile_Inr [OF w2] p1 by simp
  have p3: "files p' = (if UseOverlay cfg
              then (files p)(?m \<mapsto> cdoc, ?s \<mapsto> Stage1Image cfg, ?o \<mapsto> [])
              else (files p)(?m \<mapsto> cdoc, ?s \<mapsto> Stage1Image cfg))"
  proof (cases "UseOverlay cfg")
    case True
    with w3 have "Create h ?o p2 = Inr p'" by simp
    from Create_Inr [OF this] p2 True show ?thesis by simp
  next
    case False
    with w3 p2 show ?thesis by simp
  qed
  from dist have d: "?m \<noteq> ?s" "?m \<noteq> ?o" "?s \<noteq> ?o" by simp_all
  have ids: "map (\<lambda>a. ri_ID (ra_Image a)) apps = Images cfg"
    using Prepare_images_Return [OF imgs] by simp
  have c1: "\<exists>cm cdoc. Marshal_PodManifest h cm = Inr cdoc \<and> ACKind cm = ''PodManifest''
            \<and> map (\<lambda>a. ri_ID (ra_Image a)) (Apps cm) = Images cfg
            \<and> pm_Volumes cm = Volumes cfg
            \<and> files p' ?m = Some cdoc"
  proof (intro exI conjI)
    show "Marshal_PodManifest h \<lparr>ACKind = ''PodManifest'', ACVersion = v, Apps = apps,
                              pm_Volumes = Volumes cfg\<rparr> = Inr cdoc" by (rule mar)
    show "files p' ?m = Some cdoc" using d by (simp add: p3)
  qed (simp_all add: ids)
  have c2: "files p' ?s = Some (Stage1Image cfg)" using d by (simp add: p3)
  have c3: "UseOverlay cfg \<longrightarrow> files p' ?o = Some []" by (simp add: p3)
  have c4: "\<not> UseOverlay cfg \<longrightarrow> files p' ?o = files p ?o" using d by (simp add: p3)
  have c5: "?o \<notin> dom (files p) \<longrightarrow> (?o \<in> dom (files p') \<longleftrightarrow> UseOverlay cfg)"
    using d by (auto simp: p3)
  have c7: "?o \<notin> dom (files p) \<and> Stat_err h ?o = None \<and> SupportsOverlay h
          \<longrightarrow> preparedWithOverlay c h dir p' = Inr (UseOverlay cfg)"
    using c5 by (auto simp: preparedWithOverlay_def Stat_def)
  from c1 c2 c3 c4 c5 c7 show ?thesis by blast
qed


text \<open>
  The theorem on the concrete host, for a pod of one image prepared with overlay.
\<close>

theorem Prepare_writes_pod_files_witness:
  "\<exists>p'. Prepare rkt_common quiet_host
       \<lparr>Stage1Image = ''sha512-s1'', UUID = ''u1'', Images = [''sha512-a1''],
        PodsDir = ''/pods'', Debug = False, ExecAppends = [[''-v'']], InheritEnv = True,
        ExplicitEnv = [''A=1''], Volumes = [], UseOverlay = True\<rparr>
       ''/pods/prepare/u1'' ''u1''
       \<lparr>files = Map.empty, envs = [''HOME=/root''], fds = [3 \<mapsto> True]\<rparr> = Return p'
     \<and> files p' ''/pods/prepare/u1/pod'' = Some ''{acKind:PodManifest}''
     \<and> files p' ''/pods/prepare/u1/stage1ID'' = Some ''sha512-s1''
     \<and> files p' ''/pods/prepare/u1/overlay-prepared'' = Some []
     \<and> preparedWithOverlay rkt_common quiet_host ''/pods/prepare/u1'' p' = Inr True"
proof -
  let ?cfg = "\<lparr>Stage1Image = ''sha512-s1'', UUID = ''u1'', Images = [''sha512-a1''],
        PodsDir = ''/pods'', Debug = False, ExecAppends = [[''-v'']], InheritEnv = True,
        ExplicitEnv = [''A=1''], Volumes = [], UseOverlay = True\<rparr>"
  let ?p = "\<lparr>files = Map.empty, envs = [''HOME=/root''], fds = [3 \<mapsto> True]\<rparr>"
  let ?d = "''/pods/prepare/u1''"
  have s1: "prepareStage1Image rkt_common quiet_host ''sha512-s1'' ?d True = None"
    by (simp add: prepareStage1Image_def quiet_host_def)
  have a0: "prepareAppImage rkt_common quiet_host ''sha512-a1'' ?d True =
      Inr \<lparr>im_Name = ''app-sha512-a1'',
           im_App = Some \<lparr>Exec = [''/bin/sh''], App_Environment = []\<rparr>,
           im_Annotations = []\<rparr>"
    by (simp add: prepareAppImage_def quiet_host_def)
  have m0: "\<exists>e. MergeEnvs [] True [''A=1''] [''HOME=/root''] = Inr e"
    by (simp add: MergeEnvs_def SplitN2_def index_def)
  then obtain e where e: "MergeEnvs [] True [''A=1''] [''HOME=/root''] = Inr e" ..
  have "\<exists>a. Prepare_image rkt_common quiet_host ?cfg ?d ?p 0 ''sha512-a1'' [] = Return [a]"
    by (simp add: Prepare_image_def a0 e AppList_Get_def index_def)
  then obtain a where ai: "Prepare_image rkt_common quiet_host ?cfg ?d ?p 0 ''sha512-a1'' [] = Return [a]" ..
  have v: "NewSemVer quiet_host (Version rkt_common) = Inr ''0.5.5''"
    by (simp add: quiet_host_def rkt_common_def)
  have mj: "\<And>cm. Marshal_PodManifest quiet_host cm = Inr (''{acKind:'' @ ACKind cm @ ''}'')"
    by (simp add: quiet_host_def)
  have wf: "\<And>fn. WriteFile_err quiet_host fn = None" "\<And>fn. Create_err quiet_host fn = None"
    by (simp_all add: quiet_host_def)
  have "\<exists>p'. Prepare rkt_common quiet_host ?cfg ?d ''u1'' ?p = Return p'"
    unfolding Prepare_def
    by (simp add: s1 ai v mj wf WriteFile_def Create_def)
  then obtain p' where r: "Prepare rkt_common quiet_host ?cfg ?d ''u1'' ?p = Return p'" ..
  have dist: "distinct [PodManifestPath rkt_common ?d, Join ?d (Stage1IDFilename rkt_common),
                         Join ?d (OverlayPreparedFilename rkt_common)]"
    by (simp add: rkt_common_def Join_def)
  note t = Prepare_writes_pod_files [OF r dist]
  have pm: "PodManifestPath rkt_common ?d = ''/pods/prepare/u1/pod''"
    by (simp add: rkt_common_def Join_def)
  have ps: "Join ?d (Stage1IDFilename rkt_common) = ''/pods/prepare/u1/stage1ID''"
    by (simp add: rkt_common_def Join_def)
  have po: "Join ?d (OverlayPreparedFilename rkt_common) = ''/pods/prepare/u1/overlay-prepared''"
    by (simp add: rkt_common_def Join_def)
  from t obtain cm cdoc where "Marshal_PodManifest quiet_host cm = Inr cdoc"
    "ACKind cm = ''PodManifest''" "files p' (PodManifestPath rkt_common ?d) = Some cdoc"
    by blast
  then have m: "files p' ''/pods/prepare/u1/pod'' = Some ''{acKind:PodManifest}''"
    unfolding pm mj by simp
  have i: "files p' ''/pods/prepare/u1/stage1ID'' = Some ''sha512-s1''"
    using t unfolding ps by simp
  have o: "files p' ''/pods/prepare/u1/overlay-prepared'' = Some []"
    using t unfolding po by simp
  have "Join ?d (OverlayPreparedFilename rkt_common) \<notin> dom (files ?p)
            \<and> Stat_err quiet_host (Join ?d (OverlayPreparedFilename rkt_common)) = None
            \<and> SupportsOverlay quiet_host"
    by (simp add: quiet_host_def)
  with t have w: "preparedWithOverlay rkt_common quiet_host ?d p' = Inr True"
    by simp
  from r m i o w show ?thesis by blast
qed


subsection \<open>Claim C6: the lock descriptor reaches stage 1\<close>

text \<open>
  Claim C6. Whenever \<open>Run\<close> reaches the exec of the stage-1 entrypoint, the environment
  block it passes holds the lock variable with the decimal form of \<open>cfg.LockFd\<close> as its
  value (the number read back from it is \<open>cfg.LockFd\<close>), and the descriptor
  \<open>cfg.LockFd\<close> is among those that stay open in the new image, its close-on-exec flag
  having been cleared.
\<close>

theorem Run_passes_lock_fd:
  assumes "Run c h cfg dir p = Execed path args envv open"
  shows "Getenv envv (EnvLockFd c) = Some (Sprintf_v (LockFd cfg))
       \<and> Atoi (Sprintf_v (LockFd cfg)) = LockFd cfg
       \<and> LockFd cfg \<in> open"
proof -
  from Run_Execed [OF assms] obtain p2 p3 p4 where
    se: "Setenv (EnvLockFd c) (Sprintf_v (LockFd cfg)) p2 = Inr p3"
    and ce: "CloseOnExec (LockFd cfg) False p3 = Inr p4"
    and ev: "envv = envs p4" and op: "open = inherited_fds p4"
    by blast
  from Setenv_Inr [OF se] have k: "CHR ''='' \<notin> set (EnvLockFd c)"
    and p3: "p3 = p2\<lparr>envs := set_entry (envs p2) (EnvLockFd c)
                          (EnvLockFd c @ ''='' @ Sprintf_v (LockFd cfg))\<rparr>"
    by simp_all
  from CloseOnExec_Inr [OF ce] have p4: "p4 = p3\<lparr>fds := (fds p3)(LockFd cfg \<mapsto> False)\<rparr>"
    by simp
  have "envs p4 = set_entry (envs p2) (EnvLockFd c)
                          (EnvLockFd c @ ''='' @ Sprintf_v (LockFd cfg))"
    by (simp add: p4 p3)
  then have g: "Getenv envv (EnvLockFd c) = Some (Sprintf_v (LockFd cfg))"
    unfolding ev using Getenv_set_entry [OF k] by simp
  have o: "LockFd cfg \<in> open"
    by (simp add: op inherited_fds_def p4)
  from g o show ?thesis by (simp add: Atoi_Sprintf_v)
qed

text \<open>
  The theorem on the concrete host: a pod prepared without overlay, run with lock
  descriptor 7, which was opened close-on-exec, in an environment that already held a
  stale \<open>RKT_LOCK_FD\<close>.
\<close>

theorem Run_passes_lock_fd_witness:
  "\<exists>path args envv open.
     Run rkt_common quiet_host
       \<lparr>Stage1Image = ''sha512-s1'', UUID = ''u1'', Images = [''sha512-a1''],
        PodsDir = ''/pods'', Debug = False, PrivateNet = True,
        SpawnMetadataService = True, LockFd = 7, Interactive = False\<rparr>
       ''/pods/run/u1''
       \<lparr>files = [''/pods/run/u1/stage1/manifest'' \<mapsto> ''{}''],
        envs = [''HOME=/root'', ''RKT_LOCK_FD=3''], fds = [0 \<mapsto> False, 7 \<mapsto> True]\<rparr>
       = Execed path args envv open
     \<and> path = ''/pods/run/u1/stage1/rootfs/init''
     \<and> Getenv envv ''RKT_LOCK_FD'' = Some ''7''
     \<and> 7 \<in> open"
proof -
  let ?cfg = "\<lparr>Stage1Image = ''sha512-s1'', UUID = ''u1'', Images = [''sha512-a1''],
        PodsDir = ''/pods'', Debug = False, PrivateNet = True,
        SpawnMetadataService = True, LockFd = 7, Interactive = False\<rparr>"
  let ?p = "\<lparr>files = [''/pods/run/u1/stage1/manifest'' \<mapsto> ''{}''],
        envs = [''HOME=/root'', ''RKT_LOCK_FD=3''], fds = [0 \<mapsto> False, 7 \<mapsto> True]\<rparr>"
  let ?d = "''/pods/run/u1''"
  have po: "preparedWithOverlay rkt_common quiet_host ?d ?p = Inr False"
    by (simp add: preparedWithOverlay_def Stat_def quiet_host_def rkt_common_def Join_def)
  have mk: "\<And>d. MkdirAll quiet_host d = None"
    by (simp add: quiet_host_def)
  have st: "Run_setup rkt_common quiet_host ?cfg ?d ?p = Inr ?p"
    by (simp add: Run_setup_def po setupStage1Image_def setupAppImage_def mk)
  have sv: "Sprintf_v 7 = ''7''"
    by code_simp
  have ep: "\<And>q. files q = files ?p \<Longrightarrow>
      getStage1Entrypoint rkt_common quiet_host ?d runEntrypoint q = Inr ''init''"
    by (simp add: getStage1Entrypoint_def ReadFile_def quiet_host_def rkt_common_def
        Join_def runEntrypoint_def)
  have rc: "EnvLockFd rkt_common = ''RKT_LOCK_FD''"
    "Join (Stage1RootfsPath rkt_common ?d) ''init'' = ''/pods/run/u1/stage1/rootfs/init''"
    by (simp_all add: rkt_common_def Join_def)
  have qh: "\<And>d. Chdir_err quiet_host d = None" "\<And>d. Exec_err quiet_host d = None"
    by (simp_all add: quiet_host_def)
  have "\<exists>path args envv open. Run rkt_common quiet_host ?cfg ?d ?p = Execed path args envv open
      \<and> path = ''/pods/run/u1/stage1/rootfs/init''"
    unfolding Run_def
    by (simp add: st sv ep qh rc Setenv_def CloseOnExec_def syscall_Exec_def Let_def)
  then obtain path args envv "open" where
    r: "Run rkt_common quiet_host ?cfg ?d ?p = Execed path args envv open"
    and pa: "path = ''/pods/run/u1/stage1/rootfs/init''" by blast
  from Run_passes_lock_fd [OF r] have "Getenv envv ''RKT_LOCK_FD'' = Some ''7''" "7 \<in> open"
    by (simp_all add: sv rkt_common_def)
  with r pa show ?thesis by blast
qed

subsection \<open>Claim C3: the mark pass never marks a live pod\<close>

text \<open>
  Claim C3. For an entry of \<open>run/\<close> at the start of the collector's mark pass: if a
  non-blocking shared lock on it is refused, the pass leaves it in \<open>run/\<close> as it is
  and puts nothing of that name into \<open>exited-garbage/\<close>; if the lock is granted (and
  \<open>exited-garbage/\<close> holds no entry of that name), the pass renames it to
  \<open>exited-garbage/\<close>, with the time of the pass as its change-time and its lock left
  as the pass found it, the shared lock having been released. So an entry that the
  pass moved is one whose shared lock was not refused.
\<close>

theorem mark_exited_spares_live_pods:
  assumes "lookup st RunDir u = Some e"
  shows "(acquire st RunDir u Shared = Busy \<longrightarrow>
            lookup (mark_exited st) RunDir u = Some e
          \<and> lookup (mark_exited st) ExitedGarbageDir u = lookup st ExitedGarbageDir u)
       \<and> (acquire st RunDir u Shared \<noteq> Busy \<and> lookup st ExitedGarbageDir u = None \<longrightarrow>
            lookup (mark_exited st) RunDir u = None
          \<and> lookup (mark_exited st) ExitedGarbageDir u = Some (e\<lparr>change_time := clock st\<rparr>)
          \<and> (\<exists>e'. lookup (mark_exited st) ExitedGarbageDir u = Some e' \<and> lock e' = lock e))
       \<and> (lookup (mark_exited st) RunDir u = None \<longrightarrow> acquire st RunDir u Shared \<noteq> Busy)"
proof -
  have b: "acquire st RunDir u Shared = Busy \<longleftrightarrow> lock e = HeldExclusive"
    using assms by (rule acquire_Shared_Busy)
  have i: "u \<in> set (readdir st RunDir)"
    using assms by (simp add: readdir_lookup)
  have live: "lock e = HeldExclusive \<Longrightarrow> lookup (mark_exited st) d u = lookup st d u" for d
    unfolding mark_exited_def mark_pass_def using assms by (rule mark_list_live)
  have moved: "lock e \<noteq> HeldExclusive \<Longrightarrow> lookup st ExitedGarbageDir u = None \<Longrightarrow>
      lookup (mark_exited st) RunDir u = None
      \<and> lookup (mark_exited st) ExitedGarbageDir u = Some (e\<lparr>change_time := clock st\<rparr>)"
    unfolding mark_exited_def mark_pass_def using mark_list_moves [OF i assms] by simp
  show ?thesis using b live moved assms by auto
qed

text \<open>
  The theorem on the concrete state: the running pod stays, the exited pod is marked.
\<close>

theorem mark_exited_spares_live_pods_witness:
  "lookup (mark_exited example_pods) RunDir ''live''
     = Some \<lparr>lock = HeldExclusive, change_time = 100, metadata = [''pod'']\<rparr>
   \<and> lookup (mark_exited example_pods) ExitedGarbageDir ''live'' = None
   \<and> lookup (mark_exited example_pods) RunDir ''exited'' = None
   \<and> lookup (mark_exited example_pods) ExitedGarbageDir ''exited''
     = Some \<lparr>lock = Free, change_time = 3600, metadata = [''pod'']\<rparr>"
proof -
  let ?l = "\<lparr>lock = HeldExclusive, change_time = 100, metadata = [''pod'']\<rparr>"
  let ?x = "\<lparr>lock = Free, change_time = 200, metadata = [''pod'']\<rparr>"
  have l: "lookup example_pods RunDir ''live'' = Some ?l"
    and x: "lookup example_pods RunDir ''exited'' = Some ?x"
    and n: "lookup example_pods ExitedGarbageDir ''live'' = None"
      "lookup example_pods ExitedGarbageDir ''exited'' = None"
    and c: "clock example_pods = 3600"
    by (simp_all add: lookup_def example_pods_def)
  have bl: "acquire example_pods RunDir ''live'' Shared = Busy"
    by (simp add: acquire_def l)
  have bx: "acquire example_pods RunDir ''exited'' Shared \<noteq> Busy"
    by (simp add: acquire_def x)
  from mark_exited_spares_live_pods [OF l] bl n
  have 1: "lookup (mark_exited example_pods) RunDir ''live'' = Some ?l"
    "lookup (mark_exited example_pods) ExitedGarbageDir ''live'' = None"
    by simp_all
  from mark_exited_spares_live_pods [OF x] bx n c
  have 2: "lookup (mark_exited example_pods) RunDir ''exited'' = None"
    "lookup (mark_exited example_pods) ExitedGarbageDir ''exited''
       = Some \<lparr>lock = Free, change_time = 3600, metadata = [''pod'']\<rparr>"
    by simp_all
  from 1 2 show ?thesis by simp
qed


subsection \<open>Claim C4: the sweep pass honours the grace period\<close>

text \<open>
  Claim C4. For an entry of \<open>exited-garbage/\<close>: sweeps invoked at any times that lie
  within the grace period after its change-time, however many, leave it in place. Once
  the grace period has elapsed, a sweep that is granted the exclusive lock deletes it
  and reports it once, and a later sweep finds no entry of that name and deletes
  nothing of that name; a sweep that is refused the lock leaves it in place. The grace
  period is a parameter; its default is 30 minutes.
\<close>

theorem sweep_honours_grace_period:
  assumes "lookup st ExitedGarbageDir u = Some e"
  shows "((\<forall>t\<in>set ts. t - change_time e < g) \<longrightarrow>
            lookup (foldl (sweep_exited_at g) st ts) ExitedGarbageDir u = Some e)
       \<and> (\<not> clock st - change_time e < g \<and> acquire st ExitedGarbageDir u Exclusive \<noteq> Busy \<longrightarrow>
            lookup (fst (sweep_pass g ExitedGarbageDir st)) ExitedGarbageDir u = None
          \<and> count_list (snd (sweep_pass g ExitedGarbageDir st)) u = 1
          \<and> lookup (fst (sweep_pass g ExitedGarbageDir
                 ((fst (sweep_pass g ExitedGarbageDir st))\<lparr>clock := t'\<rparr>))) ExitedGarbageDir u = None
          \<and> u \<notin> set (snd (sweep_pass g ExitedGarbageDir
                 ((fst (sweep_pass g ExitedGarbageDir st))\<lparr>clock := t'\<rparr>))))
       \<and> (\<not> clock st - change_time e < g \<and> acquire st ExitedGarbageDir u Exclusive = Busy \<longrightarrow>
            lookup (fst (sweep_pass g ExitedGarbageDir st)) ExitedGarbageDir u = Some e
          \<and> u \<notin> set (snd (sweep_pass g ExitedGarbageDir st)))"
proof (intro conjI impI)
  assume "\<forall>t\<in>set ts. t - change_time e < g"
  with assms show "lookup (foldl (sweep_exited_at g) st ts) ExitedGarbageDir u = Some e"
    by (rule sweeps_keep)
next
  assume a: "\<not> clock st - change_time e < g \<and> acquire st ExitedGarbageDir u Exclusive \<noteq> Busy"
  then have f: "lock e = Free" using acquire_Exclusive_Busy [OF assms] by simp
  have i: "u \<in> set (readdir st ExitedGarbageDir)" using assms by (simp add: readdir_lookup)
  from sweep_list_deletes [of u "readdir st ExitedGarbageDir" "(st, [])" ExitedGarbageDir e g]
    i assms a f
  have d: "lookup (fst (sweep_pass g ExitedGarbageDir st)) ExitedGarbageDir u = None"
    "count_list (snd (sweep_pass g ExitedGarbageDir st)) u = 1"
    by (simp_all add: sweep_pass_def)
  let ?st1 = "(fst (sweep_pass g ExitedGarbageDir st))\<lparr>clock := t'\<rparr>"
  have n: "lookup ?st1 ExitedGarbageDir u = None" using d(1) by (simp add: lookup_clock_update)
  from sweep_list_absent [of "(?st1, [])" ExitedGarbageDir u g "readdir ?st1 ExitedGarbageDir"] n
  have s: "lookup (fst (sweep_pass g ExitedGarbageDir ?st1)) ExitedGarbageDir u = None"
    "count_list (snd (sweep_pass g ExitedGarbageDir ?st1)) u = 0"
    by (simp_all add: sweep_pass_def)
  show "lookup (fst (sweep_pass g ExitedGarbageDir st)) ExitedGarbageDir u = None" by (rule d(1))
  show "count_list (snd (sweep_pass g ExitedGarbageDir st)) u = 1" by (rule d(2))
  show "lookup (fst (sweep_pass g ExitedGarbageDir ?st1)) ExitedGarbageDir u = None" by (rule s(1))
  show "u \<notin> set (snd (sweep_pass g ExitedGarbageDir ?st1))"
    using s(2) by (simp add: count_list_0_iff)
next
  assume a: "\<not> clock st - change_time e < g \<and> acquire st ExitedGarbageDir u Exclusive = Busy"
  then have f: "lock e \<noteq> Free" using acquire_Exclusive_Busy [OF assms] by simp
  from sweep_list_keeps [of "(st, [])" ExitedGarbageDir u e g "readdir st ExitedGarbageDir"]
    assms f
  have k: "lookup (fst (sweep_pass g ExitedGarbageDir st)) ExitedGarbageDir u = Some e"
    "count_list (snd (sweep_pass g ExitedGarbageDir st)) u = 0"
    by (simp_all add: sweep_pass_def)
  show "lookup (fst (sweep_pass g ExitedGarbageDir st)) ExitedGarbageDir u = Some e" by (rule k(1))
  show "u \<notin> set (snd (sweep_pass g ExitedGarbageDir st))"
    using k(2) by (simp add: count_list_0_iff)
qed

text \<open>
  The theorem on the concrete state with the default grace period, at time 3600: the
  pod marked at 3000 survives three sweeps, the pod marked at 0 is deleted once, and
  the pod a status query holds is skipped.
\<close>

theorem sweep_honours_grace_period_witness:
  "lookup (foldl (sweep_exited_at defaultGracePeriod) example_pods [3600, 4000, 4700])
      ExitedGarbageDir ''young''
     = Some \<lparr>lock = Free, change_time = 3000, metadata = [''pod'']\<rparr>
   \<and> lookup (fst (sweep_pass defaultGracePeriod ExitedGarbageDir example_pods))
      ExitedGarbageDir ''old'' = None
   \<and> count_list (snd (sweep_pass defaultGracePeriod ExitedGarbageDir example_pods)) ''old'' = 1
   \<and> ''old'' \<notin> set (snd (sweep_pass defaultGracePeriod ExitedGarbageDir
        ((fst (sweep_pass defaultGracePeriod ExitedGarbageDir example_pods))\<lparr>clock := 7200\<rparr>)))
   \<and> lookup (fst (sweep_pass defaultGracePeriod ExitedGarbageDir example_pods))
      ExitedGarbageDir ''watched''
     = Some \<lparr>lock = HeldShared 0, change_time = 0, metadata = [''pod'']\<rparr>"
proof -
  let ?y = "\<lparr>lock = Free, change_time = 3000, metadata = [''pod'']\<rparr>"
  let ?o = "\<lparr>lock = Free, change_time = 0, metadata = [''pod'']\<rparr>"
  let ?w = "\<lparr>lock = HeldShared 0, change_time = 0, metadata = [''pod'']\<rparr>"
  have y: "lookup example_pods ExitedGarbageDir ''young'' = Some ?y"
    and o: "lookup example_pods ExitedGarbageDir ''old'' = Some ?o"
    and w: "lookup example_pods ExitedGarbageDir ''watched'' = Some ?w"
    and c: "clock example_pods = 3600"
    by (simp_all add: lookup_def example_pods_def)
  have ty: "\<forall>t\<in>set [3600, 4000, 4700 :: int]. t - change_time ?y < defaultGracePeriod"
    by (simp add: defaultGracePeriod_def)
  have 1: "lookup (foldl (sweep_exited_at defaultGracePeriod) example_pods [3600, 4000, 4700])
      ExitedGarbageDir ''young'' = Some ?y"
    using sweep_honours_grace_period [OF y, of "[3600, 4000, 4700]" defaultGracePeriod] ty
    by blast
  have ao: "\<not> clock example_pods - change_time ?o < defaultGracePeriod
      \<and> acquire example_pods ExitedGarbageDir ''old'' Exclusive \<noteq> Busy"
    by (simp add: c defaultGracePeriod_def acquire_def o)
  note to = sweep_honours_grace_period [OF o, of "[]" defaultGracePeriod 7200]
  have 2: "lookup (fst (sweep_pass defaultGracePeriod ExitedGarbageDir example_pods))
      ExitedGarbageDir ''old'' = None"
    "count_list (snd (sweep_pass defaultGracePeriod ExitedGarbageDir example_pods)) ''old'' = 1"
    "''old'' \<notin> set (snd (sweep_pass defaultGracePeriod ExitedGarbageDir
        ((fst (sweep_pass defaultGracePeriod ExitedGarbageDir example_pods))\<lparr>clock := 7200\<rparr>)))"
    using to ao by blast+
  have aw: "\<not> clock example_pods - change_time ?w < defaultGracePeriod
      \<and> acquire example_pods ExitedGarbageDir ''watched'' Exclusive = Busy"
    by (simp add: c defaultGracePeriod_def acquire_def w)
  have 3: "lookup (fst (sweep_pass defaultGracePeriod ExitedGarbageDir example_pods))
      ExitedGarbageDir ''watched'' = Some ?w"
    using sweep_honours_grace_period [OF w, of "[]" defaultGracePeriod 0] aw by blast
  from 1 2 3 show ?thesis by blast
qed

subsection \<open>Claim C8: a failed preparation only releases the lock\<close>

text \<open>
  Claim C8. For a pod in \<open>prepare/\<close> whose exclusive lock the preparing process holds,
  \<open>prepareFailed\<close> renames nothing: the pod's directory stays in \<open>prepare/\<close> with its
  metadata and change-time, every other entry and the listing of every top-level
  directory are as before, and only the lock has become free. That state is the signal:
  before, a shared lock on the directory is refused and the collector's pass over
  \<open>prepare/\<close> leaves it alone; afterwards the shared lock is granted and the pass moves
  the directory to \<open>garbage/\<close>.
\<close>

theorem prepareFailed_only_unlocks:
  assumes "lookup st PrepareDir u = Some e" and "lock e = HeldExclusive"
  shows "lookup (prepareFailed st u) PrepareDir u = Some (e\<lparr>lock := Free\<rparr>)
       \<and> (\<forall>d u'. (d, u') \<noteq> (PrepareDir, u) \<longrightarrow>
             lookup (prepareFailed st u) d u' = lookup st d u')
       \<and> (\<forall>d. readdir (prepareFailed st u) d = readdir st d)
       \<and> clock (prepareFailed st u) = clock st
       \<and> acquire st PrepareDir u Shared = Busy
       \<and> acquire (prepareFailed st u) PrepareDir u Shared \<noteq> Busy
       \<and> lookup (mark_failed_prepares st) PrepareDir u = Some e
       \<and> lookup (mark_failed_prepares st) GarbageDir u = lookup st GarbageDir u
       \<and> (lookup st GarbageDir u = None \<longrightarrow>
            lookup (mark_failed_prepares (prepareFailed st u)) PrepareDir u = None
          \<and> lookup (mark_failed_prepares (prepareFailed st u)) GarbageDir u
              = Some (e\<lparr>lock := Free, change_time := clock st\<rparr>))"
proof -
  let ?st = "prepareFailed st u"
  have pf: "?st = put st PrepareDir u (e\<lparr>lock := Free\<rparr>)"
    using assms by (simp add: prepareFailed_def release_def)
  have 1: "lookup ?st PrepareDir u = Some (e\<lparr>lock := Free\<rparr>)"
    by (simp add: pf lookup_put)
  have 2: "\<forall>d u'. (d, u') \<noteq> (PrepareDir, u) \<longrightarrow> lookup ?st d u' = lookup st d u'"
    by (simp add: pf lookup_put)
  have 3: "\<forall>d. readdir ?st d = readdir st d"
    using assms(1) by (simp add: pf readdir_put_present)
  have 4: "clock ?st = clock st" by (simp add: pf clock_put)
  have 5: "acquire st PrepareDir u Shared = Busy"
    using acquire_Shared_Busy [OF assms(1)] assms(2) by simp
  have 6: "acquire ?st PrepareDir u Shared \<noteq> Busy"
    using acquire_Shared_Busy [OF 1] by simp
  have 7: "lookup (mark_failed_prepares st) d u = lookup st d u" for d
    unfolding mark_failed_prepares_def mark_pass_def
    using assms by (rule mark_list_live)
  have i: "u \<in> set (readdir ?st PrepareDir)" using 1 by (simp add: readdir_lookup)
  have 8: "lookup st GarbageDir u = None \<longrightarrow>
            lookup (mark_failed_prepares ?st) PrepareDir u = None
          \<and> lookup (mark_failed_prepares ?st) GarbageDir u
              = Some (e\<lparr>lock := Free, change_time := clock st\<rparr>)"
  proof
    assume "lookup st GarbageDir u = None"
    then have g: "lookup ?st GarbageDir u = None" using 2 by simp
    from mark_list_moves [OF i 1 _ g] 4
    show "lookup (mark_failed_prepares ?st) PrepareDir u = None
          \<and> lookup (mark_failed_prepares ?st) GarbageDir u
              = Some (e\<lparr>lock := Free, change_time := clock st\<rparr>)"
      by (simp add: mark_failed_prepares_def mark_pass_def)
  qed
  show ?thesis
    apply (intro conjI)
            apply (rule 1)
           apply (rule 2)
          apply (rule 3)
         apply (rule 4)
        apply (rule 5)
       apply (rule 6)
      apply (simp add: 7 assms)
     apply (rule 7)
    apply (rule 8)
    done
qed

text \<open>
  The theorem on a state with one pod being prepared, at time 60.
\<close>

theorem prepareFailed_only_unlocks_witness:
  "lookup (prepareFailed
      \<lparr>dirs = (\<lambda>d. if d = PrepareDir
          then [(''p1'', \<lparr>lock = HeldExclusive, change_time = 50, metadata = [''pod'']\<rparr>)]
          else []), clock = 60\<rparr> ''p1'') PrepareDir ''p1''
     = Some \<lparr>lock = Free, change_time = 50, metadata = [''pod'']\<rparr>
   \<and> lookup (mark_failed_prepares (prepareFailed
      \<lparr>dirs = (\<lambda>d. if d = PrepareDir
          then [(''p1'', \<lparr>lock = HeldExclusive, change_time = 50, metadata = [''pod'']\<rparr>)]
          else []), clock = 60\<rparr> ''p1'')) GarbageDir ''p1''
     = Some \<lparr>lock = Free, change_time = 60, metadata = [''pod'']\<rparr>
   \<and> lookup (mark_failed_prepares
      \<lparr>dirs = (\<lambda>d. if d = PrepareDir
          then [(''p1'', \<lparr>lock = HeldExclusive, change_time = 50, metadata = [''pod'']\<rparr>)]
          else []), clock = 60\<rparr>) PrepareDir ''p1''
     = Some \<lparr>lock = HeldExclusive, change_time = 50, metadata = [''pod'']\<rparr>"
proof -
  let ?e = "\<lparr>lock = HeldExclusive, change_time = 50, metadata = [''pod'']\<rparr>"
  let ?st = "\<lparr>dirs = (\<lambda>d. if d = PrepareDir then [(''p1'', ?e)] else []), clock = 60\<rparr>"
  have l: "lookup ?st PrepareDir ''p1'' = Some ?e" by (simp add: lookup_def)
  have x: "lock ?e = HeldExclusive" by simp
  have g: "lookup ?st GarbageDir ''p1'' = None" by (simp add: lookup_def)
  note t = prepareFailed_only_unlocks [OF l x]
  have c: "clock ?st = 60" by simp
  have a: "lookup (prepareFailed ?st ''p1'') PrepareDir ''p1''
     = Some \<lparr>lock = Free, change_time = 50, metadata = [''pod'']\<rparr>"
    using t by simp
  have b: "lookup (mark_failed_prepares (prepareFailed ?st ''p1'')) GarbageDir ''p1''
     = Some \<lparr>lock = Free, change_time = 60, metadata = [''pod'']\<rparr>"
    using t g unfolding c by simp
  have d: "lookup (mark_failed_prepares ?st) PrepareDir ''p1'' = Some ?e"
    using t by blast
  from a b d show ?thesis by blast
qed

end
